theory Spec2Isabelle
  imports Main "HOL-Library.Word"
begin

section \<open>Values of the program\<close>

text \<open>
  The program is \<^verbatim>\<open>src/index.ts\<close> (the interactive variant, lines 1 to 247).
  A Node \<^verbatim>\<open>Buffer\<close> is a list of bytes. A JavaScript string is a list of UTF-16 code
  units, so that \<^verbatim>\<open>trim\<close> can be given its full white space table.
\<close>

type_synonym byte = "8 word"
type_synonym buffer = "byte list"
type_synonym code_unit = "16 word"
type_synonym jsstring = "code_unit list"

text \<open>An ASCII literal of the source, as a JavaScript string.\<close>

definition js :: "string \<Rightarrow> jsstring" where
  "js s = map (\<lambda>c. word_of_nat (of_char c)) s"

definition newline :: jsstring where
  "newline = [0x0A]"

text \<open>
  Lines 10 to 13. Paths are written relative to the working directory, which
  \<^verbatim>\<open>path.resolve(process.cwd(), ...)\<close> puts in front of both directories.
\<close>

definition INPUT_DIR :: jsstring where
  "INPUT_DIR = js ''input''"

definition OUTPUT_DIR :: jsstring where
  "OUTPUT_DIR = js ''output''"

definition PROMPT_TEXT :: jsstring where
  "PROMPT_TEXT = js ''Peux tu enlever le filigrane sur cette image stp''"

subsection \<open>Library functions on strings and paths\<close>

text \<open>
  \<^verbatim>\<open>path.join(dir, name)\<close> for a plain entry name (what \<^verbatim>\<open>readdir\<close> reports).
\<close>

definition path_join :: "jsstring \<Rightarrow> jsstring \<Rightarrow> jsstring" where
  "path_join dir entry = dir @ js ''/'' @ entry"

text \<open>
  \<^verbatim>\<open>path.extname\<close> of Node (POSIX): the last path segment, trailing slashes ignored,
  from its last dot on; empty when the segment has no dot, starts with its only candidate
  dot, or is \<^verbatim>\<open>..\<close>.
\<close>

definition last_segment :: "jsstring \<Rightarrow> jsstring" where
  "last_segment p =
     rev (takeWhile (\<lambda>c. c \<noteq> 0x2F) (dropWhile (\<lambda>c. c = 0x2F) (rev p)))"

definition extname :: "jsstring \<Rightarrow> jsstring" where
  "extname p =
     (let b = last_segment p;
          i = length b - Suc (length (takeWhile (\<lambda>c. c \<noteq> 0x2E) (rev b)))
      in if 0x2E \<notin> set b \<or> i = 0 \<or> b = [0x2E, 0x2E] then [] else drop i b)"

text \<open>
  \<^verbatim>\<open>toLowerCase\<close> on the letters A to Z. The source only compares the result with
  \<^verbatim>\<open>.jpg\<close> and \<^verbatim>\<open>.jpeg\<close>, and no code unit outside A to Z is mapped to one of
  these letters by the full Unicode table.
\<close>

definition toLowerCase :: "jsstring \<Rightarrow> jsstring" where
  "toLowerCase s = map (\<lambda>c. if 0x41 \<le> c \<and> c \<le> 0x5A then c + 0x20 else c) s"

text \<open>
  White space of \<^verbatim>\<open>String.prototype.trim\<close>: the WhiteSpace and LineTerminator
  code points of ECMAScript, all of them single code units.
\<close>

definition isWhiteSpace :: "code_unit \<Rightarrow> bool" where
  "isWhiteSpace c =
     (c \<in> set [0x09, 0x0A, 0x0B, 0x0C, 0x0D, 0x20, 0xA0, 0x1680, 0x2000, 0x2001, 0x2002,
               0x2003, 0x2004, 0x2005, 0x2006, 0x2007, 0x2008, 0x2009, 0x200A, 0x2028,
               0x2029, 0x202F, 0x205F, 0x3000, 0xFEFF])"

definition trim :: "jsstring \<Rightarrow> jsstring" where
  "trim s = rev (dropWhile isWhiteSpace (rev (dropWhile isWhiteSpace s)))"

text \<open>\<^verbatim>\<open>buf[i]\<close>: the byte, or \<^verbatim>\<open>undefined\<close> past the end.\<close>

definition buf_at :: "buffer \<Rightarrow> nat \<Rightarrow> byte option" where
  "buf_at buf i = (if i < length buf then Some (buf ! i) else None)"

section \<open>Pure functions of the source\<close>

text \<open>Lines 15 to 18.\<close>

definition isJpegFilename :: "jsstring \<Rightarrow> bool" where
  "isJpegFilename filename =
     (let ext = toLowerCase (extname filename)
      in ext = js ''.jpg'' \<or> ext = js ''.jpeg'')"

text \<open>Lines 26 to 30.\<close>

definition chooseMimeTypeFromFilename :: "jsstring \<Rightarrow> jsstring" where
  "chooseMimeTypeFromFilename filename =
     (let ext = toLowerCase (extname filename)
      in if ext = js ''.jpg'' \<or> ext = js ''.jpeg'' then js ''image/jpeg''
         else js ''application/octet-stream'')"

text \<open>Lines 41 to 61.\<close>

definition detectMimeTypeFromBuffer :: "buffer \<Rightarrow> jsstring" where
  "detectMimeTypeFromBuffer buf =
     (if length buf \<ge> 8 \<and>
         buf_at buf 0 = Some 0x89 \<and>
         buf_at buf 1 = Some 0x50 \<and>
         buf_at buf 2 = Some 0x4E \<and>
         buf_at buf 3 = Some 0x47 \<and>
         buf_at buf 4 = Some 0x0D \<and>
         buf_at buf 5 = Some 0x0A \<and>
         buf_at buf 6 = Some 0x1A \<and>
         buf_at buf 7 = Some 0x0A
      then js ''image/png''
      else if length buf \<ge> 3 \<and> buf_at buf 0 = Some 0xFF \<and> buf_at buf 1 = Some 0xD8 \<and>
              buf_at buf 2 = Some 0xFF
      then js ''image/jpeg''
      else js ''application/octet-stream'')"

text \<open>
  Line 133: \<^verbatim>\<open>String(answers.comment ?? "").trim()\<close>. The answer of the prompt is
  \<open>None\<close> when it is \<^verbatim>\<open>undefined\<close> or \<^verbatim>\<open>null\<close>.
\<close>

definition promptComment :: "jsstring option \<Rightarrow> jsstring" where
  "promptComment answer = trim (case answer of None \<Rightarrow> [] | Some s \<Rightarrow> s)"

section \<open>The response of the edit service\<close>

text \<open>
  What line 79 and the loop of lines 82 to 87 read of a response: optional candidates,
  optional content, optional parts, and in a part an optional \<^verbatim>\<open>inlineData\<close> whose
  \<^verbatim>\<open>data\<close> is \<open>Some\<close> exactly when it is a string.
\<close>

datatype inline_data = InlineData (data: "jsstring option")

datatype part = Part (inlineData: "inline_data option")

datatype content = Content (parts: "part list option")

datatype candidate = Candidate (content: "content option")

datatype response = Response (candidates: "candidate list option")

text \<open>One call of \<^verbatim>\<open>generateContent\<close> rejects or resolves with a response.\<close>

datatype service_reply = ServiceFailure | Resolved response

section \<open>The world the program runs in\<close>

datatype error =
    MissingApiKey
  | MkdirError jsstring
  | ReaddirError jsstring
  | ReadFileError jsstring
  | WriteFileError jsstring
  | RmError jsstring
  | EditServiceError
  | ReencodeError
  | MetadataCopyError
  | ExiftoolEndError

text \<open>What the program does that can be observed, in order.\<close>

datatype event =
    EditCall jsstring buffer jsstring
  | MenuShown jsstring
  | CommentAsked
  | WarnNoImage jsstring
  | WarnExifFailed jsstring error
  | LogProcessed jsstring
  | ErrorProcessing jsstring error
  | LogNoJpegs
  | ConsoleError error

datatype dirent = Dirent (entry_name: jsstring) (isFile: bool)

text \<open>
  The environment variable, the directories with their entries in the order
  \<^verbatim>\<open>readdir\<close> reports them, the regular files with their bytes, the paths where
  \<^verbatim>\<open>writeFile\<close> and \<^verbatim>\<open>rm\<close> fail (permissions, a missing directory), whether
  \<^verbatim>\<open>exiftool.end()\<close> fails, and the trace of events so far.
\<close>

record world =
  apiKey :: "jsstring option"
  directories :: "jsstring \<rightharpoonup> dirent list"
  files :: "jsstring \<rightharpoonup> buffer"
  write_protected :: "jsstring set"
  delete_protected :: "jsstring set"
  exiftool_end_fails :: bool
  trace :: "event list"

text \<open>
  The external tools: the base64 decoder of \<^verbatim>\<open>Buffer.from\<close>, the re-encoder
  \<^verbatim>\<open>sharp(...).jpeg(...).toBuffer()\<close> (\<open>None\<close> when it throws) and the tag copy of
  \<^verbatim>\<open>exiftool.write\<close> from the bytes of the source file onto the bytes of the
  destination (\<open>None\<close> when it throws).
\<close>

record platform =
  base64_decode :: "jsstring \<Rightarrow> buffer"
  sharp_jpeg :: "buffer \<Rightarrow> buffer option"
  exiftool_copy :: "buffer \<Rightarrow> buffer \<Rightarrow> buffer option"

datatype choice = Accept | Comment | Retry | Skip

text \<open>
  One iteration of the loop of \<^verbatim>\<open>processOneFile\<close> meets the outside once: the reply of
  the edit service, then the answer to the menu, then the answer to the comment prompt.
  A script is the list of these, one per iteration, over all files.
\<close>

record round =
  reply :: service_reply
  menu :: choice
  comment :: "jsstring option"

text \<open>
  How an asynchronous function ends: it returns, it throws, or it waits for ever for a
  reply the script does not have.
\<close>

datatype outcome = Returned | Threw error | Pending

definition emit :: "event \<Rightarrow> world \<Rightarrow> world" where
  "emit e w = w\<lparr>trace := trace w @ [e]\<rparr>"

subsection \<open>File system calls\<close>

definition mkdir_recursive :: "world \<Rightarrow> jsstring \<Rightarrow> error + world" where
  "mkdir_recursive w dir =
     (if directories w dir \<noteq> None then Inr w
      else if files w dir \<noteq> None \<or> dir \<in> write_protected w then Inl (MkdirError dir)
      else Inr (w\<lparr>directories := (directories w)(dir \<mapsto> [])\<rparr>))"

definition readdir :: "world \<Rightarrow> jsstring \<Rightarrow> error + dirent list" where
  "readdir w dir = (case directories w dir of None \<Rightarrow> Inl (ReaddirError dir) | Some es \<Rightarrow> Inr es)"

definition readFile :: "world \<Rightarrow> jsstring \<Rightarrow> error + buffer" where
  "readFile w p = (case files w p of None \<Rightarrow> Inl (ReadFileError p) | Some b \<Rightarrow> Inr b)"

definition writeFile :: "world \<Rightarrow> jsstring \<Rightarrow> buffer \<Rightarrow> error + world" where
  "writeFile w p b =
     (if p \<in> write_protected w then Inl (WriteFileError p)
      else Inr (w\<lparr>files := (files w)(p \<mapsto> b)\<rparr>))"

text \<open>\<^verbatim>\<open>fsp.rm(p, { force: true })\<close>: a missing path is not an error.\<close>

definition rm_force :: "world \<Rightarrow> jsstring \<Rightarrow> error + world" where
  "rm_force w p =
     (if files w p \<noteq> None \<and> p \<in> delete_protected w then Inl (RmError p)
      else Inr (w\<lparr>files := (files w)(p := None)\<rparr>))"

section \<open>The edit client\<close>

text \<open>Line 79: \<^verbatim>\<open>result.candidates?.[0]?.content?.parts ?? []\<close>.\<close>

definition response_parts :: "response \<Rightarrow> part list" where
  "response_parts result =
     (case candidates result of
        None \<Rightarrow> []
      | Some [] \<Rightarrow> []
      | Some (c # _) \<Rightarrow>
          (case content c of
             None \<Rightarrow> []
           | Some ct \<Rightarrow> (case parts ct of None \<Rightarrow> [] | Some ps \<Rightarrow> ps)))"

text \<open>
  Lines 82 to 89: the loop over the parts returns at the first part whose
  \<^verbatim>\<open>inlineData\<close> is there and has a string as \<^verbatim>\<open>data\<close>; \<open>None\<close> is the
  \<^verbatim>\<open>null\<close> of line 89.
\<close>

fun first_inline :: "part list \<Rightarrow> jsstring option" where
  "first_inline [] = None"
| "first_inline (p # ps) =
     (case inlineData p of
        None \<Rightarrow> first_inline ps
      | Some inline \<Rightarrow> (case data inline of None \<Rightarrow> first_inline ps | Some d \<Rightarrow> Some d))"

text \<open>
  Lines 63 to 90. The request is recorded with the prompt, the image bytes and the MIME
  type it carries (the bytes travel base64 encoded); \<open>genAI\<close> is the reply of the service
  to this call.
\<close>

definition sendImageAndGetReturnedImage ::
  "platform \<Rightarrow> service_reply \<Rightarrow> jsstring \<Rightarrow> buffer \<Rightarrow> jsstring \<Rightarrow> world
     \<Rightarrow> (error + buffer option) \<times> world" where
  "sendImageAndGetReturnedImage pf genAI promptText imageBuffer mimeType w =
     (let w1 = emit (EditCall promptText imageBuffer mimeType) w
      in case genAI of
           ServiceFailure \<Rightarrow> (Inl EditServiceError, w1)
         | Resolved result \<Rightarrow>
             (Inr (map_option (base64_decode pf) (first_inline (response_parts result))), w1))"

section \<open>The metadata copier\<close>

text \<open>
  Lines 92 to 104. The tool reads both files; it fails when one is missing or when the
  tool itself fails, and then leaves the files as they were.
\<close>

definition copyAllExifFromTo :: "platform \<Rightarrow> jsstring \<Rightarrow> jsstring \<Rightarrow> world \<Rightarrow> error + world" where
  "copyAllExifFromTo pf srcPath destPath w =
     (case files w srcPath of
        None \<Rightarrow> Inl MetadataCopyError
      | Some s \<Rightarrow>
          (case files w destPath of
             None \<Rightarrow> Inl MetadataCopyError
           | Some d \<Rightarrow>
               (case exiftool_copy pf s d of
                  None \<Rightarrow> Inl MetadataCopyError
                | Some d' \<Rightarrow> Inr (w\<lparr>files := (files w)(destPath \<mapsto> d')\<rparr>))))"

section \<open>The review loop\<close>

text \<open>The three variables of lines 147 to 149.\<close>

record working_context =
  workingBuffer :: buffer
  workingMime :: jsstring
  currentPrompt :: jsstring

definition inputPath :: "jsstring \<Rightarrow> jsstring" where
  "inputPath filename = path_join INPUT_DIR filename"

definition outputPath :: "jsstring \<Rightarrow> jsstring" where
  "outputPath filename = path_join OUTPUT_DIR filename"

text \<open>Lines 147 to 149, and again lines 194 to 196.\<close>

definition initial_context :: "jsstring \<Rightarrow> buffer \<Rightarrow> working_context" where
  "initial_context filename inputBuffer =
     \<lparr>workingBuffer = inputBuffer,
      workingMime = chooseMimeTypeFromFilename filename,
      currentPrompt = PROMPT_TEXT\<rparr>"

text \<open>Lines 187 to 189.\<close>

definition comment_context :: "working_context \<Rightarrow> buffer \<Rightarrow> jsstring \<Rightarrow> working_context" where
  "comment_context ctx returnedBuffer comment_text =
     \<lparr>workingBuffer = returnedBuffer,
      workingMime = detectMimeTypeFromBuffer returnedBuffer,
      currentPrompt = currentPrompt ctx @ newline @ comment_text\<rparr>"

text \<open>Lines 201 to 203 and 204 to 206: \<^verbatim>\<open>try { await fsp.rm(...) } catch {}\<close>.\<close>

definition rm_swallowed :: "jsstring \<Rightarrow> world \<Rightarrow> world" where
  "rm_swallowed p w = (case rm_force w p of Inl err \<Rightarrow> w | Inr w' \<Rightarrow> w')"

text \<open>Lines 172 to 176: the tag copy, its failure logged and dropped.\<close>

definition copy_exif_logged :: "platform \<Rightarrow> jsstring \<Rightarrow> world \<Rightarrow> world" where
  "copy_exif_logged pf filename w =
     (case copyAllExifFromTo pf (inputPath filename) (outputPath filename) w of
        Inl err \<Rightarrow> emit (WarnExifFailed filename err) w
      | Inr w' \<Rightarrow> w')"

text \<open>
  Lines 153 to 209, the \<^verbatim>\<open>while (true)\<close> loop, one round of the script per iteration.
  With no round left the request is sent and no reply comes.
\<close>

fun review_loop ::
  "platform \<Rightarrow> jsstring \<Rightarrow> buffer \<Rightarrow> working_context \<Rightarrow> round list \<Rightarrow> world
     \<Rightarrow> outcome \<times> round list \<times> world" where
  "review_loop pf filename inputBuffer ctx [] w =
     (Pending, [],
      emit (EditCall (currentPrompt ctx) (workingBuffer ctx) (workingMime ctx)) w)"
| "review_loop pf filename inputBuffer ctx (r # rs) w =
     (case sendImageAndGetReturnedImage pf (reply r)
             (currentPrompt ctx) (workingBuffer ctx) (workingMime ctx) w of
        (Inl e, w1) \<Rightarrow> (Threw e, rs, w1)
      | (Inr None, w1) \<Rightarrow> (Returned, rs, emit (WarnNoImage filename) w1)
      | (Inr (Some returnedBuffer), w1) \<Rightarrow>
          (case sharp_jpeg pf returnedBuffer of
             None \<Rightarrow> (Threw ReencodeError, rs, w1)
           | Some jpegBuffer \<Rightarrow>
               (case writeFile w1 (outputPath filename) jpegBuffer of
                  Inl e \<Rightarrow> (Threw e, rs, w1)
                | Inr w2 \<Rightarrow>
                    (let w3 = copy_exif_logged pf filename w2;
                         w4 = emit (MenuShown filename) w3
                     in case menu r of
                          Accept \<Rightarrow> (Returned, rs, w4)
                        | Comment \<Rightarrow>
                            review_loop pf filename inputBuffer
                              (comment_context ctx returnedBuffer (promptComment (comment r)))
                              rs (emit CommentAsked w4)
                        | Retry \<Rightarrow>
                            review_loop pf filename inputBuffer
                              (initial_context filename inputBuffer) rs w4
                        | Skip \<Rightarrow>
                            (Returned, rs,
                             rm_swallowed (inputPath filename)
                               (rm_swallowed (outputPath filename) w4))))))"

text \<open>Lines 136 to 210.\<close>

definition processOneFile ::
  "platform \<Rightarrow> jsstring \<Rightarrow> round list \<Rightarrow> world \<Rightarrow> outcome \<times> round list \<times> world" where
  "processOneFile pf filename rs w =
     (case readFile w (inputPath filename) of
        Inl e \<Rightarrow> (Threw e, rs, w)
      | Inr inputBuffer \<Rightarrow>
          review_loop pf filename inputBuffer (initial_context filename inputBuffer) rs w)"

section \<open>The batch driver\<close>

text \<open>Lines 20 to 24: a failure of \<^verbatim>\<open>mkdir\<close> is dropped.\<close>

definition ensureDirExists :: "jsstring \<Rightarrow> world \<Rightarrow> world" where
  "ensureDirExists dir w = (case mkdir_recursive w dir of Inl err \<Rightarrow> w | Inr w' \<Rightarrow> w')"

text \<open>Lines 32 to 39.\<close>

definition listJpegs :: "world \<Rightarrow> jsstring \<Rightarrow> error + jsstring list" where
  "listJpegs w dir =
     (case readdir w dir of
        Inl e \<Rightarrow> Inl e
      | Inr entries \<Rightarrow>
          Inr (map entry_name (filter (\<lambda>e. isFile e \<and> isJpegFilename (entry_name e)) entries)))"

text \<open>
  Lines 229 to 236: the loop over the files, each in its \<^verbatim>\<open>try\<close>/\<^verbatim>\<open>catch\<close>.
\<close>

fun process_files ::
  "platform \<Rightarrow> jsstring list \<Rightarrow> round list \<Rightarrow> world \<Rightarrow> outcome \<times> round list \<times> world" where
  "process_files pf [] rs w = (Returned, rs, w)"
| "process_files pf (file # more_files) rs w =
     (case processOneFile pf file rs w of
        (Pending, rs', w') \<Rightarrow> (Pending, rs', w')
      | (Returned, rs', w') \<Rightarrow> process_files pf more_files rs' (emit (LogProcessed file) w')
      | (Threw err, rs', w') \<Rightarrow>
          process_files pf more_files rs' (emit (ErrorProcessing file err) w'))"

text \<open>Lines 212 to 237. An empty string is as falsy as a missing variable.\<close>

definition main :: "platform \<Rightarrow> round list \<Rightarrow> world \<Rightarrow> outcome \<times> round list \<times> world" where
  "main pf rs w =
     (if apiKey w = None \<or> apiKey w = Some [] then (Threw MissingApiKey, rs, w)
      else
        (let w1 = ensureDirExists OUTPUT_DIR (ensureDirExists INPUT_DIR w)
         in case listJpegs w1 INPUT_DIR of
              Inl e \<Rightarrow> (Threw e, rs, w1)
            | Inr found \<Rightarrow>
                if length found = 0 then (Returned, rs, emit LogNoJpegs w1)
                else process_files pf found rs w1))"

text \<open>
  Lines 239 to 247. The handler of \<^verbatim>\<open>.catch\<close> logs the error and fulfils the promise;
  the handler of \<^verbatim>\<open>.finally\<close> drops a failure of \<^verbatim>\<open>exiftool.end()\<close> and passes the
  settlement on.
\<close>

definition catch_handler :: "outcome \<times> world \<Rightarrow> outcome \<times> world" where
  "catch_handler res =
     (case res of
        (Threw err, w) \<Rightarrow> (Returned, emit (ConsoleError err) w)
      | (out, w) \<Rightarrow> (out, w))"

definition exiftool_end :: "world \<Rightarrow> error + unit" where
  "exiftool_end w = (if exiftool_end_fails w then Inl ExiftoolEndError else Inr ())"

definition finally_handler :: "outcome \<times> world \<Rightarrow> outcome \<times> world" where
  "finally_handler res =
     (case res of
        (Pending, w) \<Rightarrow> (Pending, w)
      | (out, w) \<Rightarrow> (case exiftool_end w of Inl err \<Rightarrow> (out, w) | Inr u \<Rightarrow> (out, w)))"

text \<open>
  The process: no line of the source sets \<^verbatim>\<open>process.exitCode\<close> or calls
  \<^verbatim>\<open>process.exit\<close>, so Node exits with 0 once the chain of promises is fulfilled, with
  1 when it is rejected with no handler, and does not exit while it is pending.
\<close>

definition exit_status :: "outcome \<Rightarrow> nat option" where
  "exit_status out = (case out of Returned \<Rightarrow> Some 0 | Threw err \<Rightarrow> Some 1 | Pending \<Rightarrow> None)"

definition run_process :: "platform \<Rightarrow> round list \<Rightarrow> world \<Rightarrow> nat option \<times> world" where
  "run_process pf rs w =
     (case main pf rs w of
        (out, rs', w') \<Rightarrow>
          (case finally_handler (catch_handler (out, w')) of
             (out', w'') \<Rightarrow> (exit_status out', w'')))"

subsection \<open>Reading a run\<close>

abbreviation outcome_of :: "outcome \<times> round list \<times> world \<Rightarrow> outcome" where
  "outcome_of res \<equiv> fst res"

abbreviation rounds_left :: "outcome \<times> round list \<times> world \<Rightarrow> round list" where
  "rounds_left res \<equiv> fst (snd res)"

abbreviation world_of :: "outcome \<times> round list \<times> world \<Rightarrow> world" where
  "world_of res \<equiv> snd (snd res)"

text \<open>The events a run added to the trace it started with.\<close>

definition new_events :: "world \<Rightarrow> world \<Rightarrow> event list" where
  "new_events w w' = drop (length (trace w)) (trace w')"

text \<open>The requests among some events: prompt, image and MIME type of each edit call.\<close>

fun edit_calls :: "event list \<Rightarrow> (jsstring \<times> buffer \<times> jsstring) list" where
  "edit_calls [] = []"
| "edit_calls (EditCall p b m # es) = (p, b, m) # edit_calls es"
| "edit_calls (e # es) = edit_calls es"

definition request_of :: "working_context \<Rightarrow> jsstring \<times> buffer \<times> jsstring" where
  "request_of ctx = (currentPrompt ctx, workingBuffer ctx, workingMime ctx)"

subsection \<open>The signatures named in the source\<close>

text \<open>Line 42 and line 56.\<close>

definition PNG_SIGNATURE :: buffer where
  "PNG_SIGNATURE = [0x89, 0x50, 0x4E, 0x47, 0x0D, 0x0A, 0x1A, 0x0A]"

definition JPEG_SOI :: buffer where
  "JPEG_SOI = [0xFF, 0xD8, 0xFF]"

subsection \<open>Notions the properties are stated with\<close>

text \<open>
  The payload of an accepted part: a part that carries an inline payload whose data
  field is a string has that string, any other part has none.
\<close>

definition inline_payload :: "part \<Rightarrow> jsstring option" where
  "inline_payload p = (case inlineData p of None \<Rightarrow> None | Some inline \<Rightarrow> data inline)"

text \<open>
  The world in which the menu of line 179 is shown, in an iteration that started in \<open>w\<close>
  with the context \<open>ctx\<close> and wrote \<open>jpegBuffer\<close>: the request has been sent, the output
  file written, the tags copied or the failure logged.
\<close>

definition menu_world :: "platform \<Rightarrow> jsstring \<Rightarrow> working_context \<Rightarrow> buffer \<Rightarrow> world \<Rightarrow> world" where
  "menu_world pf filename ctx jpegBuffer w =
     emit (MenuShown filename)
       (copy_exif_logged pf filename
          ((emit (EditCall (currentPrompt ctx) (workingBuffer ctx) (workingMime ctx)) w)
             \<lparr>files := (files w)(outputPath filename \<mapsto> jpegBuffer)\<rparr>))"

text \<open>
  What the edit client returns for the reply of a round (no image also when the call
  fails), and the JPEG bytes the iteration then writes.
\<close>

definition edit_result :: "platform \<Rightarrow> round \<Rightarrow> buffer option" where
  "edit_result pf r =
     (case reply r of
        ServiceFailure \<Rightarrow> None
      | Resolved result \<Rightarrow> map_option (base64_decode pf) (first_inline (response_parts result)))"

definition saved_jpeg :: "platform \<Rightarrow> round \<Rightarrow> buffer option" where
  "saved_jpeg pf r = (case edit_result pf r of None \<Rightarrow> None | Some b \<Rightarrow> sharp_jpeg pf b)"

text \<open>
  A round after which the loop goes back to generating: an image came back, it was
  re-encoded, and the operator chose \<open>comment\<close> or \<open>retry\<close>.
\<close>

definition continuing :: "platform \<Rightarrow> round \<Rightarrow> bool" where
  "continuing pf r = (saved_jpeg pf r \<noteq> None \<and> (menu r = Comment \<or> menu r = Retry))"

definition commenting :: "platform \<Rightarrow> round \<Rightarrow> bool" where
  "commenting pf r = (saved_jpeg pf r \<noteq> None \<and> menu r = Comment)"

text \<open>The Working Context after a continuing round, and after a list of them.\<close>

definition next_context ::
  "platform \<Rightarrow> jsstring \<Rightarrow> buffer \<Rightarrow> working_context \<Rightarrow> round \<Rightarrow> working_context" where
  "next_context pf filename inputBuffer ctx r =
     (case menu r of
        Comment \<Rightarrow>
          (case edit_result pf r of
             None \<Rightarrow> ctx
           | Some b \<Rightarrow> comment_context ctx b (promptComment (comment r)))
      | Retry \<Rightarrow> initial_context filename inputBuffer
      | Accept \<Rightarrow> ctx
      | Skip \<Rightarrow> ctx)"

definition context_after ::
  "platform \<Rightarrow> jsstring \<Rightarrow> buffer \<Rightarrow> working_context \<Rightarrow> round list \<Rightarrow> working_context" where
  "context_after pf filename inputBuffer ctx rs = foldl (next_context pf filename inputBuffer) ctx rs"

text \<open>The prompt with the comments of some rounds appended, each after a newline.\<close>

definition with_comments :: "jsstring \<Rightarrow> round list \<Rightarrow> jsstring" where
  "with_comments p rs = foldl (\<lambda>q r. q @ newline @ promptComment (comment r)) p rs"

text \<open>The requests a run added: the edit calls among its new events.\<close>

definition requests :: "world \<Rightarrow> outcome \<times> round list \<times> world \<Rightarrow> (jsstring \<times> buffer \<times> jsstring) list" where
  "requests w res = edit_calls (new_events w (world_of res))"

text \<open>
  A round that ends the Job it is met in, whatever else happens: every round that is
  not a continuing one.
\<close>

definition ending :: "platform \<Rightarrow> round \<Rightarrow> bool" where
  "ending pf r = (\<not> continuing pf r)"

text \<open>The files named by the summary lines of the batch driver, among some events.\<close>

fun summary_files :: "event list \<Rightarrow> jsstring list" where
  "summary_files [] = []"
| "summary_files (LogProcessed f # es) = f # summary_files es"
| "summary_files (ErrorProcessing f err # es) = f # summary_files es"
| "summary_files (e # es) = summary_files es"

subsection \<open>A small world for examples\<close>

text \<open>
  Stand-ins for the external tools: a decoder that knows the base64 text of the PNG
  signature, a re-encoder that accepts any non-empty image, a tag copy that succeeds
  and leaves the bytes as they are.
\<close>

definition stub_platform :: platform where
  "stub_platform =
     \<lparr>base64_decode = (\<lambda>s. if s = js ''iVBORw0KGgo='' then PNG_SIGNATURE else []),
      sharp_jpeg = (\<lambda>b. if b = [] then None else Some (JPEG_SOI @ [0xE0])),
      exiftool_copy = (\<lambda>s d. Some d)\<rparr>"

definition photo :: jsstring where
  "photo = js ''a.jpg''"

definition photo_bytes :: buffer where
  "photo_bytes = [0xFF, 0xD8, 0xFF, 0xE1]"

text \<open>
  The key is set; \<^verbatim>\<open>input\<close> lists two JPEG names, a PNG and a directory named like a
  JPEG; only \<^verbatim>\<open>a.jpg\<close> can be read.
\<close>

definition example_world :: world where
  "example_world =
     \<lparr>apiKey = Some (js ''key''),
      directories = [INPUT_DIR \<mapsto> [Dirent (js ''a.jpg'') True, Dirent (js ''b.jpeg'') True,
                                   Dirent (js ''c.png'') True, Dirent (js ''d.jpg'') False],
                     OUTPUT_DIR \<mapsto> []],
      files = [inputPath photo \<mapsto> photo_bytes],
      write_protected = {},
      delete_protected = {},
      exiftool_end_fails = False,
      trace = []\<rparr>"

definition image_reply :: service_reply where
  "image_reply =
     Resolved (Response (Some [Candidate (Some (Content (Some
       [Part None, Part (Some (InlineData (Some (js ''iVBORw0KGgo=''))))])))]))"

definition text_reply :: service_reply where
  "text_reply = Resolved (Response (Some [Candidate (Some (Content (Some [Part None])))]))"

definition round_of :: "service_reply \<Rightarrow> choice \<Rightarrow> jsstring option \<Rightarrow> round" where
  "round_of g c answer = \<lparr>reply = g, menu = c, comment = answer\<rparr>"

section \<open>Properties\<close>

subsection \<open>The format sniffer\<close>

lemma mime_distinct:
  "js ''image/png'' \<noteq> js ''image/jpeg''"
  "js ''image/png'' \<noteq> js ''application/octet-stream''"
  "js ''image/jpeg'' \<noteq> js ''application/octet-stream''"
  "js ''image/jpeg'' \<noteq> js ''image/png''"
  "js ''application/octet-stream'' \<noteq> js ''image/png''"
  "js ''application/octet-stream'' \<noteq> js ''image/jpeg''"
  by (simp_all add: js_def)

lemma length_ge_3: "3 \<le> length xs \<Longrightarrow> \<exists>a b c r. xs = a # b # c # r"
  by (auto simp: eval_nat_numeral Suc_le_length_iff)

lemma length_ge_8:
  "8 \<le> length xs \<Longrightarrow>
   \<exists>a0 a1 a2 a3 a4 a5 a6 a7 r. xs = a0 # a1 # a2 # a3 # a4 # a5 # a6 # a7 # r"
  by (auto simp: eval_nat_numeral Suc_le_length_iff)

lemma png_condition:
  "(length buf \<ge> 8 \<and> buf_at buf 0 = Some a0 \<and> buf_at buf 1 = Some a1 \<and>
    buf_at buf 2 = Some a2 \<and> buf_at buf 3 = Some a3 \<and> buf_at buf 4 = Some a4 \<and>
    buf_at buf 5 = Some a5 \<and> buf_at buf 6 = Some a6 \<and> buf_at buf 7 = Some a7) =
   (8 \<le> length buf \<and> take 8 buf = [a0, a1, a2, a3, a4, a5, a6, a7])"
proof (cases "8 \<le> length buf")
  case True
  then obtain b0 b1 b2 b3 b4 b5 b6 b7 rest where
    "buf = b0 # b1 # b2 # b3 # b4 # b5 # b6 # b7 # rest"
    using length_ge_8 by blast
  then show ?thesis by (simp add: buf_at_def)
next
  case False
  then show ?thesis by simp
qed

lemma jpeg_condition:
  "(length buf \<ge> 3 \<and> buf_at buf 0 = Some a0 \<and> buf_at buf 1 = Some a1 \<and>
    buf_at buf 2 = Some a2) = (take 3 buf = [a0, a1, a2])"
proof (cases "3 \<le> length buf")
  case True
  then obtain b0 b1 b2 rest where "buf = b0 # b1 # b2 # rest"
    using length_ge_3 by blast
  then show ?thesis by (simp add: buf_at_def)
next
  case False
  then have "length (take 3 buf) \<noteq> length [a0, a1, a2]" by simp
  then have "take 3 buf \<noteq> [a0, a1, a2]" by metis
  with False show ?thesis by simp
qed

lemma detect_unfold:
  "detectMimeTypeFromBuffer buf =
     (if 8 \<le> length buf \<and> take 8 buf = PNG_SIGNATURE then js ''image/png''
      else if take 3 buf = JPEG_SOI then js ''image/jpeg''
      else js ''application/octet-stream'')"
  unfolding detectMimeTypeFromBuffer_def PNG_SIGNATURE_def JPEG_SOI_def
    png_condition jpeg_condition ..

lemma png_not_jpeg:
  assumes "8 \<le> length buf" and "take 8 buf = PNG_SIGNATURE"
  shows "take 3 buf \<noteq> JPEG_SOI"
proof -
  obtain b0 b1 b2 b3 b4 b5 b6 b7 rest where
    "buf = b0 # b1 # b2 # b3 # b4 # b5 # b6 # b7 # rest"
    using assms(1) length_ge_8 by blast
  with assms(2) show ?thesis by (simp add: PNG_SIGNATURE_def JPEG_SOI_def)
qed

text \<open>
  C9. For every byte buffer, \<open>detectMimeTypeFromBuffer\<close> answers \<^verbatim>\<open>image/png\<close> exactly
  when the buffer has at least 8 bytes and its first 8 bytes are the PNG signature,
  \<^verbatim>\<open>image/jpeg\<close> exactly when its first 3 bytes are FF D8 FF, and
  \<^verbatim>\<open>application/octet-stream\<close> exactly in the other cases; a buffer of fewer than 8
  bytes is never PNG, and the empty buffer is of unknown type. The function is total: it
  has a value on every buffer.
\<close>

theorem detectMimeTypeFromBuffer_classifies:
  "(detectMimeTypeFromBuffer buf = js ''image/png'') =
     (8 \<le> length buf \<and> take 8 buf = PNG_SIGNATURE) \<and>
   (detectMimeTypeFromBuffer buf = js ''image/jpeg'') = (take 3 buf = JPEG_SOI) \<and>
   (detectMimeTypeFromBuffer buf = js ''application/octet-stream'') =
     (\<not> (8 \<le> length buf \<and> take 8 buf = PNG_SIGNATURE) \<and> take 3 buf \<noteq> JPEG_SOI) \<and>
   (length buf < 8 \<longrightarrow> detectMimeTypeFromBuffer buf \<noteq> js ''image/png'') \<and>
   detectMimeTypeFromBuffer [] = js ''application/octet-stream''"
proof (cases "8 \<le> length buf \<and> take 8 buf = PNG_SIGNATURE")
  case True
  then have "take 3 buf \<noteq> JPEG_SOI" using png_not_jpeg by blast
  with True show ?thesis
    by (simp add: detect_unfold mime_distinct JPEG_SOI_def)
next
  case False
  then show ?thesis
    by (cases "take 3 buf = JPEG_SOI") (auto simp: detect_unfold mime_distinct JPEG_SOI_def)
qed

theorem detectMimeTypeFromBuffer_classifies_witness:
  "detectMimeTypeFromBuffer [0x89, 0x50, 0x4E, 0x47, 0x0D, 0x0A, 0x1A] \<noteq> js ''image/png'' \<and>
   detectMimeTypeFromBuffer [0x89, 0x50, 0x4E, 0x47, 0x0D, 0x0A, 0x1A, 0x0A] = js ''image/png'' \<and>
   detectMimeTypeFromBuffer [0xFF, 0xD8, 0xFF, 0xE0] = js ''image/jpeg''"
proof -
  have short: "length [0x89, 0x50, 0x4E, 0x47, 0x0D, 0x0A, 0x1A :: byte] < 8"
    by simp
  have a: "detectMimeTypeFromBuffer [0x89, 0x50, 0x4E, 0x47, 0x0D, 0x0A, 0x1A] \<noteq> js ''image/png''"
    using detectMimeTypeFromBuffer_classifies [of "[0x89, 0x50, 0x4E, 0x47, 0x0D, 0x0A, 0x1A]"] short
    by blast
  have b: "detectMimeTypeFromBuffer [0x89, 0x50, 0x4E, 0x47, 0x0D, 0x0A, 0x1A, 0x0A] = js ''image/png''"
    by (simp add: detect_unfold PNG_SIGNATURE_def)
  have c: "detectMimeTypeFromBuffer [0xFF, 0xD8, 0xFF, 0xE0] = js ''image/jpeg''"
    by (simp add: detect_unfold PNG_SIGNATURE_def JPEG_SOI_def)
  from a b c show ?thesis by blast
qed

subsection \<open>The edit client\<close>

lemma first_inline_None: "(first_inline ps = None) = list_all (\<lambda>q. inline_payload q = None) ps"
  by (induction ps) (auto simp: inline_payload_def split: option.splits)

lemma first_inline_Some:
  "(first_inline ps = Some d) =
   (\<exists>pre p post. ps = pre @ p # post \<and> list_all (\<lambda>q. inline_payload q = None) pre \<and>
      inline_payload p = Some d)"
proof (induction ps)
  case Nil
  then show ?case by simp
next
  case (Cons a ps)
  show ?case
  proof (cases "inline_payload a")
    case None
    then have step: "first_inline (a # ps) = first_inline ps"
      by (auto simp: inline_payload_def split: option.splits)
    show ?thesis
    proof
      assume "first_inline (a # ps) = Some d"
      with step Cons obtain pre p post where
        "ps = pre @ p # post" "list_all (\<lambda>q. inline_payload q = None) pre" "inline_payload p = Some d"
        by auto
      with None have "a # ps = (a # pre) @ p # post \<and> list_all (\<lambda>q. inline_payload q = None) (a # pre) \<and>
        inline_payload p = Some d" by simp
      then show "\<exists>pre p post. a # ps = pre @ p # post \<and> list_all (\<lambda>q. inline_payload q = None) pre \<and>
        inline_payload p = Some d" by blast
    next
      assume "\<exists>pre p post. a # ps = pre @ p # post \<and> list_all (\<lambda>q. inline_payload q = None) pre \<and>
        inline_payload p = Some d"
      then obtain pre p post where h: "a # ps = pre @ p # post"
        "list_all (\<lambda>q. inline_payload q = None) pre" "inline_payload p = Some d" by blast
      from h None have "pre \<noteq> []" by (cases pre) auto
      then obtain pre' where "pre = a # pre'" using h(1) by (cases pre) auto
      with h have "ps = pre' @ p # post \<and> list_all (\<lambda>q. inline_payload q = None) pre' \<and>
        inline_payload p = Some d" by simp
      then have "first_inline ps = Some d" using Cons by blast
      with step show "first_inline (a # ps) = Some d" by simp
    qed
  next
    case (Some e)
    then have step: "first_inline (a # ps) = Some e"
      by (auto simp: inline_payload_def split: option.splits)
    show ?thesis
    proof
      assume "first_inline (a # ps) = Some d"
      with step have "e = d" by simp
      with Some have "a # ps = [] @ a # ps \<and> list_all (\<lambda>q. inline_payload q = None) [] \<and>
        inline_payload a = Some d" by simp
      then show "\<exists>pre p post. a # ps = pre @ p # post \<and> list_all (\<lambda>q. inline_payload q = None) pre \<and>
        inline_payload p = Some d" by blast
    next
      assume "\<exists>pre p post. a # ps = pre @ p # post \<and> list_all (\<lambda>q. inline_payload q = None) pre \<and>
        inline_payload p = Some d"
      then obtain pre p post where h: "a # ps = pre @ p # post"
        "list_all (\<lambda>q. inline_payload q = None) pre" "inline_payload p = Some d" by blast
      have "pre = []"
      proof (cases pre)
        case Nil then show ?thesis .
      next
        case (Cons x xs)
        with h(1) have "x = a" by simp
        with Cons h(2) Some show ?thesis by simp
      qed
      with h have "p = a" by simp
      with h(3) Some have "e = d" by simp
      with step show "first_inline (a # ps) = Some d" by simp
    qed
  qed
qed

lemma send_result:
  "fst (sendImageAndGetReturnedImage pf (Resolved result) promptText imageBuffer mimeType w) =
     Inr (map_option (base64_decode pf) (first_inline (response_parts result)))"
  by (simp add: sendImageAndGetReturnedImage_def Let_def)

text \<open>
  C8. For every response of the edit service, \<open>sendImageAndGetReturnedImage\<close> reads the
  parts of the first candidate only, in order (the other candidates, \<open>others\<close>, have no
  effect), and returns the decoded bytes of the first part that carries an inline payload
  with a string data field: the parts before it carry none. It returns no image when
  there are no candidates, the list of candidates is empty, the first candidate has no
  content, the content has no parts, or no part carries such a payload.
\<close>

theorem sendImageAndGetReturnedImage_first_inline_part:
  "fst (sendImageAndGetReturnedImage pf (Resolved (Response None)) promptText imageBuffer mimeType w)
     = Inr None \<and>
   fst (sendImageAndGetReturnedImage pf (Resolved (Response (Some []))) promptText imageBuffer mimeType w)
     = Inr None \<and>
   fst (sendImageAndGetReturnedImage pf (Resolved (Response (Some (Candidate None # others))))
          promptText imageBuffer mimeType w)
     = Inr None \<and>
   fst (sendImageAndGetReturnedImage pf
          (Resolved (Response (Some (Candidate (Some (Content None)) # others))))
          promptText imageBuffer mimeType w)
     = Inr None \<and>
   (fst (sendImageAndGetReturnedImage pf
          (Resolved (Response (Some (Candidate (Some (Content (Some ps))) # others))))
          promptText imageBuffer mimeType w)
     = Inr None) = list_all (\<lambda>q. inline_payload q = None) ps \<and>
   (fst (sendImageAndGetReturnedImage pf
          (Resolved (Response (Some (Candidate (Some (Content (Some ps))) # others))))
          promptText imageBuffer mimeType w)
     = Inr (Some img)) =
     (\<exists>pre p post d. ps = pre @ p # post \<and> list_all (\<lambda>q. inline_payload q = None) pre \<and>
        inline_payload p = Some d \<and> img = base64_decode pf d)"
proof -
  have parts: "response_parts (Response (Some (Candidate (Some (Content (Some ps))) # others))) = ps"
    by (simp add: response_parts_def)
  have last_one: "(map_option (base64_decode pf) (first_inline ps) = Some img) =
     (\<exists>pre p post d. ps = pre @ p # post \<and> list_all (\<lambda>q. inline_payload q = None) pre \<and>
        inline_payload p = Some d \<and> img = base64_decode pf d)"
  proof
    assume "map_option (base64_decode pf) (first_inline ps) = Some img"
    then obtain d where d: "first_inline ps = Some d" "img = base64_decode pf d"
      by (cases "first_inline ps") auto
    from d(1) obtain pre p post where
      "ps = pre @ p # post" "list_all (\<lambda>q. inline_payload q = None) pre" "inline_payload p = Some d"
      unfolding first_inline_Some by blast
    with d(2) show "\<exists>pre p post d. ps = pre @ p # post \<and>
        list_all (\<lambda>q. inline_payload q = None) pre \<and> inline_payload p = Some d \<and>
        img = base64_decode pf d" by blast
  next
    assume "\<exists>pre p post d. ps = pre @ p # post \<and>
        list_all (\<lambda>q. inline_payload q = None) pre \<and> inline_payload p = Some d \<and>
        img = base64_decode pf d"
    then obtain pre p post d where h: "ps = pre @ p # post"
      "list_all (\<lambda>q. inline_payload q = None) pre" "inline_payload p = Some d"
      "img = base64_decode pf d" by blast
    then have "first_inline ps = Some d" unfolding first_inline_Some by blast
    with h(4) show "map_option (base64_decode pf) (first_inline ps) = Some img" by simp
  qed
  show ?thesis
    unfolding send_result parts
    using last_one by (simp add: response_parts_def first_inline_None)
qed

subsection \<open>Trimming\<close>

lemma rev_dropWhile_split:
  "xs = rev (dropWhile P (rev xs)) @ rev (takeWhile P (rev xs))"
proof -
  have "rev (takeWhile P (rev xs) @ dropWhile P (rev xs)) = rev (rev xs)"
    by (simp only: takeWhile_dropWhile_id)
  then show ?thesis by (simp only: rev_append rev_rev_ident)
qed

lemma list_all_takeWhile: "list_all P (takeWhile P xs)"
  by (induction xs) simp_all

lemma trim_split:
  "dropWhile isWhiteSpace s =
     trim s @ rev (takeWhile isWhiteSpace (rev (dropWhile isWhiteSpace s)))"
  unfolding trim_def by (rule rev_dropWhile_split)

lemma trim_decompose:
  "\<exists>pre post. s = pre @ trim s @ post \<and> list_all isWhiteSpace pre \<and> list_all isWhiteSpace post"
proof -
  let ?pre = "takeWhile isWhiteSpace s"
  let ?post = "rev (takeWhile isWhiteSpace (rev (dropWhile isWhiteSpace s)))"
  have "s = ?pre @ dropWhile isWhiteSpace s" by simp
  also have "dropWhile isWhiteSpace s = trim s @ ?post" by (rule trim_split)
  finally have a: "s = ?pre @ trim s @ ?post" .
  have c: "list_all isWhiteSpace ?pre" by (rule list_all_takeWhile)
  have d: "list_all isWhiteSpace ?post"
    using list_all_takeWhile [of isWhiteSpace "rev (dropWhile isWhiteSpace s)"]
    by (simp add: list_all_iff)
  from a c d show ?thesis by blast
qed

lemma trim_last:
  assumes "trim s \<noteq> []"
  shows "\<not> isWhiteSpace (last (trim s))"
proof -
  let ?u = "dropWhile isWhiteSpace (rev (dropWhile isWhiteSpace s))"
  from assms have u: "?u \<noteq> []" unfolding trim_def by (simp only: rev_is_Nil_conv not_False_eq_True)
  then have "\<not> isWhiteSpace (hd ?u)" by (rule hd_dropWhile)
  moreover have "last (trim s) = hd ?u" unfolding trim_def using u by (simp only: last_rev)
  ultimately show ?thesis by simp
qed

lemma trim_hd:
  assumes "trim s \<noteq> []"
  shows "\<not> isWhiteSpace (hd (trim s))"
proof -
  let ?t = "dropWhile isWhiteSpace s"
  have split: "?t = trim s @ rev (takeWhile isWhiteSpace (rev ?t))" by (rule trim_split)
  with assms have t: "?t \<noteq> []" by (metis append_is_Nil_conv)
  then have nt: "\<not> isWhiteSpace (hd ?t)" by (rule hd_dropWhile)
  from assms have "hd (trim s @ rev (takeWhile isWhiteSpace (rev ?t))) = hd (trim s)"
    by (rule hd_append2)
  with split have "hd ?t = hd (trim s)" by metis
  with nt show ?thesis by simp
qed

lemma trim_examples:
  "trim (js ''make it brighter'') = js ''make it brighter''"
  "trim (js ''  make it brighter  '') = js ''make it brighter''"
  "trim (js ''   '') = []"
  "trim [] = []"
  by (simp_all add: trim_def js_def isWhiteSpace_def)

subsection \<open>The review loop, one iteration and many\<close>

lemma emit_fields [simp]:
  "trace (emit e w) = trace w @ [e]"
  "files (emit e w) = files w"
  "write_protected (emit e w) = write_protected w"
  "delete_protected (emit e w) = delete_protected w"
  "apiKey (emit e w) = apiKey w"
  "directories (emit e w) = directories w"
  "exiftool_end_fails (emit e w) = exiftool_end_fails w"
  by (simp_all add: emit_def)

lemma send_world [simp]:
  "snd (sendImageAndGetReturnedImage pf genAI p b m w) = emit (EditCall p b m) w"
  by (cases genAI) (simp_all add: sendImageAndGetReturnedImage_def Let_def)

lemma edit_calls_append [simp]: "edit_calls (xs @ ys) = edit_calls xs @ edit_calls ys"
  by (induction xs rule: edit_calls.induct) simp_all

lemma copy_exif_trace:
  "\<exists>ws. trace (copy_exif_logged pf f w) = trace w @ ws \<and> edit_calls ws = []"
proof (cases "copyAllExifFromTo pf (inputPath f) (outputPath f) w")
  case (Inl err)
  then have "trace (copy_exif_logged pf f w) = trace w @ [WarnExifFailed f err]"
    by (simp add: copy_exif_logged_def)
  then show ?thesis by simp
next
  case (Inr w')
  then have "trace w' = trace w"
    by (auto simp: copyAllExifFromTo_def split: option.splits)
  with Inr have "trace (copy_exif_logged pf f w) = trace w @ []"
    by (simp add: copy_exif_logged_def)
  then show ?thesis by (metis edit_calls.simps(1))
qed

lemma copy_exif_fields [simp]:
  "write_protected (copy_exif_logged pf f w) = write_protected w"
  "delete_protected (copy_exif_logged pf f w) = delete_protected w"
  by (auto simp: copy_exif_logged_def copyAllExifFromTo_def split: option.splits sum.splits)

lemma rm_swallowed_fields [simp]:
  "trace (rm_swallowed p w) = trace w"
  "write_protected (rm_swallowed p w) = write_protected w"
  "delete_protected (rm_swallowed p w) = delete_protected w"
  by (simp_all add: rm_swallowed_def rm_force_def)

lemma menu_world_trace:
  "\<exists>ws. trace (menu_world pf f ctx j w) =
     trace w @ EditCall (currentPrompt ctx) (workingBuffer ctx) (workingMime ctx) # ws \<and>
     edit_calls ws = []"
proof -
  let ?w2 = "(emit (EditCall (currentPrompt ctx) (workingBuffer ctx) (workingMime ctx)) w)
             \<lparr>files := (files w)(outputPath f \<mapsto> j)\<rparr>"
  obtain ws where ws: "trace (copy_exif_logged pf f ?w2) = trace ?w2 @ ws" "edit_calls ws = []"
    using copy_exif_trace by blast
  have "trace (menu_world pf f ctx j w) =
     trace w @ EditCall (currentPrompt ctx) (workingBuffer ctx) (workingMime ctx) # (ws @ [MenuShown f])"
    by (simp add: menu_world_def ws(1))
  moreover have "edit_calls (ws @ [MenuShown f]) = []" by (simp add: ws(2))
  ultimately show ?thesis by blast
qed

lemma menu_world_fields [simp]:
  "write_protected (menu_world pf f ctx j w) = write_protected w"
  "delete_protected (menu_world pf f ctx j w) = delete_protected w"
  by (simp_all add: menu_world_def)

text \<open>One iteration that reaches the menu.\<close>

lemma loop_at_menu:
  assumes "fst (sendImageAndGetReturnedImage pf (reply r) (currentPrompt ctx) (workingBuffer ctx)
             (workingMime ctx) w) = Inr (Some returnedBuffer)"
    and "sharp_jpeg pf returnedBuffer = Some jpegBuffer"
    and "outputPath f \<notin> write_protected w"
  shows "review_loop pf f ib ctx (r # rs) w =
     (case menu r of
        Accept \<Rightarrow> (Returned, rs, menu_world pf f ctx jpegBuffer w)
      | Comment \<Rightarrow>
          review_loop pf f ib (comment_context ctx returnedBuffer (promptComment (comment r))) rs
            (emit CommentAsked (menu_world pf f ctx jpegBuffer w))
      | Retry \<Rightarrow> review_loop pf f ib (initial_context f ib) rs (menu_world pf f ctx jpegBuffer w)
      | Skip \<Rightarrow>
          (Returned, rs,
           rm_swallowed (inputPath f) (rm_swallowed (outputPath f) (menu_world pf f ctx jpegBuffer w))))"
proof -
  obtain res w1 where s: "sendImageAndGetReturnedImage pf (reply r) (currentPrompt ctx)
      (workingBuffer ctx) (workingMime ctx) w = (res, w1)"
    by (cases "sendImageAndGetReturnedImage pf (reply r) (currentPrompt ctx)
      (workingBuffer ctx) (workingMime ctx) w")
  with assms(1) have res: "res = Inr (Some returnedBuffer)" by simp
  from s have w1: "w1 = emit (EditCall (currentPrompt ctx) (workingBuffer ctx) (workingMime ctx)) w"
    using send_world [of pf "reply r" "currentPrompt ctx" "workingBuffer ctx" "workingMime ctx" w]
    by simp
  have wr: "writeFile w1 (outputPath f) jpegBuffer =
      Inr (w1\<lparr>files := (files w)(outputPath f \<mapsto> jpegBuffer)\<rparr>)"
    using assms(3) by (simp add: writeFile_def w1)
  show ?thesis
    by (simp add: s res assms(2) wr Let_def menu_world_def w1 [symmetric] split: choice.splits)
qed

lemma loop_first_call:
  "\<exists>es. trace (world_of (review_loop pf f ib ctx rs w)) =
     trace w @ EditCall (currentPrompt ctx) (workingBuffer ctx) (workingMime ctx) # es"
proof (induction rs arbitrary: ctx w)
  case Nil
  then show ?case by simp
next
  case (Cons r rs)
  let ?call = "EditCall (currentPrompt ctx) (workingBuffer ctx) (workingMime ctx)"
  obtain res w1 where s: "sendImageAndGetReturnedImage pf (reply r) (currentPrompt ctx)
      (workingBuffer ctx) (workingMime ctx) w = (res, w1)"
    by (cases "sendImageAndGetReturnedImage pf (reply r) (currentPrompt ctx)
      (workingBuffer ctx) (workingMime ctx) w")
  then have w1: "w1 = emit ?call w"
    using send_world [of pf "reply r" "currentPrompt ctx" "workingBuffer ctx" "workingMime ctx" w]
    by simp
  show ?case
  proof (cases "\<exists>b j. res = Inr (Some b) \<and> sharp_jpeg pf b = Some j \<and> outputPath f \<notin> write_protected w")
    case False
    then show ?thesis
      by (auto simp: s w1 writeFile_def split: sum.splits option.splits)
  next
    case True
    then obtain b j where h: "res = Inr (Some b)" "sharp_jpeg pf b = Some j"
      "outputPath f \<notin> write_protected w" by blast
    from s h(1) have a: "fst (sendImageAndGetReturnedImage pf (reply r) (currentPrompt ctx)
        (workingBuffer ctx) (workingMime ctx) w) = Inr (Some b)" by simp
    note step = loop_at_menu [OF a h(2) h(3), of ib rs]
    obtain ws where ws: "trace (menu_world pf f ctx j w) = trace w @ ?call # ws"
      using menu_world_trace by blast
    show ?thesis
    proof (cases "menu r")
      case Accept
      with step ws show ?thesis by simp
    next
      case Comment
      obtain es where "trace (world_of (review_loop pf f ib
          (comment_context ctx b (promptComment (comment r))) rs
          (emit CommentAsked (menu_world pf f ctx j w)))) =
        trace (emit CommentAsked (menu_world pf f ctx j w)) @
          EditCall (currentPrompt (comment_context ctx b (promptComment (comment r))))
            (workingBuffer (comment_context ctx b (promptComment (comment r))))
            (workingMime (comment_context ctx b (promptComment (comment r)))) # es"
        using Cons.IH by blast
      with Comment step ws show ?thesis by simp
    next
      case Retry
      obtain es where "trace (world_of (review_loop pf f ib (initial_context f ib) rs
          (menu_world pf f ctx j w))) =
        trace (menu_world pf f ctx j w) @
          EditCall (currentPrompt (initial_context f ib)) (workingBuffer (initial_context f ib))
            (workingMime (initial_context f ib)) # es"
        using Cons.IH by blast
      with Retry step ws show ?thesis by simp
    next
      case Skip
      with step ws show ?thesis by simp
    qed
  qed
qed

lemma send_edit_result:
  "(fst (sendImageAndGetReturnedImage pf (reply r) p b m w) = Inr (Some x)) = (edit_result pf r = Some x)"
  by (cases "reply r") (simp_all add: sendImageAndGetReturnedImage_def Let_def edit_result_def)

lemma continuing_step:
  assumes "continuing pf r" and "outputPath f \<notin> write_protected w"
  shows "\<exists>w' xs. review_loop pf f ib ctx (r # rs) w =
            review_loop pf f ib (next_context pf f ib ctx r) rs w' \<and>
          trace w' = trace w @ xs \<and> length (edit_calls xs) = 1 \<and>
          write_protected w' = write_protected w \<and> delete_protected w' = delete_protected w"
proof -
  from assms(1) obtain b j where b: "edit_result pf r = Some b" and j: "sharp_jpeg pf b = Some j"
    by (auto simp: continuing_def saved_jpeg_def split: option.splits)
  from b have a: "fst (sendImageAndGetReturnedImage pf (reply r) (currentPrompt ctx)
      (workingBuffer ctx) (workingMime ctx) w) = Inr (Some b)"
    by (simp add: send_edit_result)
  note step = loop_at_menu [OF a j assms(2), of ib rs]
  obtain ws where ws: "trace (menu_world pf f ctx j w) =
      trace w @ EditCall (currentPrompt ctx) (workingBuffer ctx) (workingMime ctx) # ws"
      "edit_calls ws = []"
    using menu_world_trace by blast
  from assms(1) have "menu r = Comment \<or> menu r = Retry" by (simp add: continuing_def)
  then show ?thesis
  proof
    assume c: "menu r = Comment"
    let ?w' = "emit CommentAsked (menu_world pf f ctx j w)"
    have "review_loop pf f ib ctx (r # rs) w = review_loop pf f ib (next_context pf f ib ctx r) rs ?w'"
      using step c b by (simp add: next_context_def)
    moreover have "trace ?w' = trace w @
        (EditCall (currentPrompt ctx) (workingBuffer ctx) (workingMime ctx) # ws @ [CommentAsked])"
      by (simp add: ws(1))
    moreover have "length (edit_calls
        (EditCall (currentPrompt ctx) (workingBuffer ctx) (workingMime ctx) # ws @ [CommentAsked])) = 1"
      by (simp add: ws(2))
    moreover have "write_protected ?w' = write_protected w \<and> delete_protected ?w' = delete_protected w"
      by simp
    ultimately show ?thesis by blast
  next
    assume c: "menu r = Retry"
    let ?w' = "menu_world pf f ctx j w"
    have "review_loop pf f ib ctx (r # rs) w = review_loop pf f ib (next_context pf f ib ctx r) rs ?w'"
      using step c by (simp add: next_context_def)
    moreover have "trace ?w' = trace w @
        (EditCall (currentPrompt ctx) (workingBuffer ctx) (workingMime ctx) # ws)"
      by (simp add: ws(1))
    moreover have "length (edit_calls
        (EditCall (currentPrompt ctx) (workingBuffer ctx) (workingMime ctx) # ws)) = 1"
      by (simp add: ws(2))
    moreover have "write_protected ?w' = write_protected w \<and> delete_protected ?w' = delete_protected w"
      by simp
    ultimately show ?thesis by blast
  qed
qed

text \<open>A history of continuing rounds brings the loop to the context it computes.\<close>

lemma loop_after_history:
  assumes "list_all (continuing pf) pre" and "outputPath f \<notin> write_protected w"
  shows "\<exists>w' xs. review_loop pf f ib ctx (pre @ rs) w =
            review_loop pf f ib (context_after pf f ib ctx pre) rs w' \<and>
          trace w' = trace w @ xs \<and> length (edit_calls xs) = length pre \<and>
          write_protected w' = write_protected w \<and> delete_protected w' = delete_protected w"
  using assms
proof (induction pre arbitrary: ctx w)
  case Nil
  have "review_loop pf f ib ctx ([] @ rs) w = review_loop pf f ib (context_after pf f ib ctx []) rs w \<and>
      trace w = trace w @ [] \<and> length (edit_calls []) = length ([] :: round list) \<and>
      write_protected w = write_protected w \<and> delete_protected w = delete_protected w"
    by (simp add: context_after_def)
  then show ?case by blast
next
  case (Cons r pre)
  from Cons.prems have r: "continuing pf r" and pre: "list_all (continuing pf) pre" by simp_all
  obtain w1 xs1 where s1: "review_loop pf f ib ctx (r # (pre @ rs)) w =
        review_loop pf f ib (next_context pf f ib ctx r) (pre @ rs) w1"
      "trace w1 = trace w @ xs1" "length (edit_calls xs1) = 1"
      "write_protected w1 = write_protected w" "delete_protected w1 = delete_protected w"
    using continuing_step [OF r Cons.prems(2)] by blast
  from s1(4) Cons.prems(2) have wp: "outputPath f \<notin> write_protected w1" by simp
  obtain w2 xs2 where s2: "review_loop pf f ib (next_context pf f ib ctx r) (pre @ rs) w1 =
        review_loop pf f ib (context_after pf f ib (next_context pf f ib ctx r) pre) rs w2"
      "trace w2 = trace w1 @ xs2" "length (edit_calls xs2) = length pre"
      "write_protected w2 = write_protected w1" "delete_protected w2 = delete_protected w1"
    using Cons.IH [OF pre wp] by blast
  have "review_loop pf f ib ctx ((r # pre) @ rs) w =
        review_loop pf f ib (context_after pf f ib ctx (r # pre)) rs w2"
    using s1(1) s2(1) by (simp add: context_after_def)
  moreover have "trace w2 = trace w @ (xs1 @ xs2)" using s1(2) s2(2) by simp
  moreover have "length (edit_calls (xs1 @ xs2)) = length (r # pre)" using s1(3) s2(3) by simp
  moreover have "write_protected w2 = write_protected w \<and> delete_protected w2 = delete_protected w"
    using s1(4,5) s2(4,5) by simp
  ultimately show ?case by blast
qed

lemma commenting_continuing: "list_all (commenting pf) cs \<Longrightarrow> list_all (continuing pf) cs"
  by (induction cs) (simp_all add: commenting_def continuing_def)

lemma context_after_comments_prompt:
  "list_all (commenting pf) cs \<Longrightarrow>
   currentPrompt (context_after pf f ib ctx cs) = with_comments (currentPrompt ctx) cs"
proof (induction cs arbitrary: ctx)
  case Nil
  then show ?case by (simp add: context_after_def with_comments_def)
next
  case (Cons r cs)
  from Cons.prems have r: "commenting pf r" and cs: "list_all (commenting pf) cs" by simp_all
  from r obtain b where b: "edit_result pf r = Some b" "menu r = Comment"
    by (auto simp: commenting_def saved_jpeg_def split: option.splits)
  then have n: "next_context pf f ib ctx r = comment_context ctx b (promptComment (comment r))"
    by (simp add: next_context_def)
  have "currentPrompt (context_after pf f ib (next_context pf f ib ctx r) cs) =
      with_comments (currentPrompt (next_context pf f ib ctx r)) cs"
    using Cons.IH [OF cs] .
  then show ?case by (simp add: context_after_def with_comments_def n comment_context_def)
qed

text \<open>The request sent after a history of continuing rounds.\<close>

lemma call_after_history:
  assumes "list_all (continuing pf) pre" and "outputPath f \<notin> write_protected w"
  shows "length pre < length (edit_calls (new_events w (world_of (review_loop pf f ib ctx (pre @ rs) w)))) \<and>
     edit_calls (new_events w (world_of (review_loop pf f ib ctx (pre @ rs) w))) ! length pre =
       request_of (context_after pf f ib ctx pre)"
proof -
  let ?c = "context_after pf f ib ctx pre"
  obtain w' xs where h: "review_loop pf f ib ctx (pre @ rs) w = review_loop pf f ib ?c rs w'"
      "trace w' = trace w @ xs" "length (edit_calls xs) = length pre"
    using loop_after_history [OF assms] by blast
  obtain es where es: "trace (world_of (review_loop pf f ib ?c rs w')) =
      trace w' @ EditCall (currentPrompt ?c) (workingBuffer ?c) (workingMime ?c) # es"
    using loop_first_call by blast
  have "edit_calls (new_events w (world_of (review_loop pf f ib ctx (pre @ rs) w))) =
      edit_calls xs @ request_of ?c # edit_calls es"
    by (simp add: h(1) es h(2) new_events_def request_of_def)
  with h(3) show ?thesis by (simp add: nth_append)
qed

subsection \<open>Requests of a job\<close>

declare review_loop.simps [simp del]

lemma with_comments_snoc:
  "with_comments p (cs @ [r]) = with_comments p cs @ newline @ promptComment (comment r)"
  by (simp add: with_comments_def)

lemma context_after_snoc:
  "context_after pf f ib ctx (pre @ [r]) = next_context pf f ib (context_after pf f ib ctx pre) r"
  by (simp add: context_after_def)

lemma continuing_snoc:
  "list_all (continuing pf) pre \<Longrightarrow> saved_jpeg pf r \<noteq> None \<Longrightarrow> menu r = Comment \<or> menu r = Retry \<Longrightarrow>
   list_all (continuing pf) (pre @ [r])"
  by (simp add: continuing_def)

lemma requests_after_history:
  assumes "list_all (continuing pf) pre" and "outputPath f \<notin> write_protected w"
  shows "length pre < length (requests w (review_loop pf f ib ctx (pre @ rs) w)) \<and>
     requests w (review_loop pf f ib ctx (pre @ rs) w) ! length pre =
       request_of (context_after pf f ib ctx pre)"
  unfolding requests_def using call_after_history [OF assms] .

text \<open>The request that follows a comment round, after any history of comment rounds.\<close>

lemma request_after_comments:
  assumes "list_all (commenting pf) cs"
    and "edit_result pf r = Some returnedBuffer"
    and "sharp_jpeg pf returnedBuffer = Some jpegBuffer"
    and "menu r = Comment"
    and "outputPath f \<notin> write_protected w"
  shows "length cs + 1 < length (requests w (review_loop pf f ib ctx (cs @ r # rs) w)) \<and>
     requests w (review_loop pf f ib ctx (cs @ r # rs) w) ! (length cs + 1) =
       (with_comments (currentPrompt ctx) cs @ newline @ promptComment (comment r),
        returnedBuffer, detectMimeTypeFromBuffer returnedBuffer)"
proof -
  from assms(2,3) have sj: "saved_jpeg pf r \<noteq> None" by (simp add: saved_jpeg_def)
  have hist: "list_all (continuing pf) (cs @ [r])"
    using continuing_snoc [OF commenting_continuing [OF assms(1)] sj] assms(4) by simp
  have ctx': "context_after pf f ib ctx (cs @ [r]) =
      comment_context (context_after pf f ib ctx cs) returnedBuffer (promptComment (comment r))"
    by (simp add: context_after_snoc next_context_def assms(2,4))
  have "request_of (context_after pf f ib ctx (cs @ [r])) =
      (with_comments (currentPrompt ctx) cs @ newline @ promptComment (comment r),
        returnedBuffer, detectMimeTypeFromBuffer returnedBuffer)"
    by (simp add: ctx' request_of_def comment_context_def
        context_after_comments_prompt [OF assms(1)])
  with requests_after_history [OF hist assms(5), of ib ctx rs] show ?thesis by simp
qed

lemma first_request:
  "0 < length (requests w (review_loop pf f ib ctx rs w)) \<and>
   requests w (review_loop pf f ib ctx rs w) ! 0 = request_of ctx"
proof -
  obtain es where "trace (world_of (review_loop pf f ib ctx rs w)) =
      trace w @ EditCall (currentPrompt ctx) (workingBuffer ctx) (workingMime ctx) # es"
    using loop_first_call by blast
  then show ?thesis by (simp add: requests_def new_events_def request_of_def)
qed

lemma processOneFile_read:
  "files w (inputPath f) = Some ib \<Longrightarrow>
   processOneFile pf f rs w = review_loop pf f ib (initial_context f ib) rs w"
  by (simp add: processOneFile_def readFile_def)

lemma make_it_brighter: "promptComment (Some (js ''make it brighter'')) = js ''make it brighter''"
  by (simp add: promptComment_def trim_examples)

text \<open>
  C2. In any iteration (any Working Context \<open>ctx\<close>, any world \<open>w\<close>) in which the edit
  client returns an image, the image is re-encoded and written, and the operator chooses
  \<open>comment\<close>, the next edit call carries the previous prompt, a newline and the comment
  read by the comment prompt, the image just returned, and the MIME type sniffed from
  that image. The comments accumulate: after comment rounds \<open>cs\<close> and this one, the
  prompt is the first prompt with every comment appended after a newline, in order.
  In a Job whose first answer is the comment \<^verbatim>\<open>make it brighter\<close>, the second edit call
  has the base prompt, a newline and \<^verbatim>\<open>make it brighter\<close> as its prompt.
\<close>

theorem comment_sets_next_request:
  assumes "fst (sendImageAndGetReturnedImage pf (reply r) (currentPrompt ctx) (workingBuffer ctx)
             (workingMime ctx) w) = Inr (Some returnedBuffer)"
    and "sharp_jpeg pf returnedBuffer = Some jpegBuffer"
    and "outputPath f \<notin> write_protected w"
    and "menu r = Comment"
  shows "requests w (review_loop pf f ib ctx (r # rs) w) ! 0 =
           (currentPrompt ctx, workingBuffer ctx, workingMime ctx) \<and>
         1 < length (requests w (review_loop pf f ib ctx (r # rs) w)) \<and>
         requests w (review_loop pf f ib ctx (r # rs) w) ! 1 =
           (currentPrompt ctx @ newline @ promptComment (comment r),
            returnedBuffer, detectMimeTypeFromBuffer returnedBuffer) \<and>
         (list_all (commenting pf) cs \<longrightarrow>
            length cs + 1 < length (requests w (review_loop pf f ib ctx (cs @ r # rs) w)) \<and>
            requests w (review_loop pf f ib ctx (cs @ r # rs) w) ! (length cs + 1) =
              (with_comments (currentPrompt ctx) cs @ newline @ promptComment (comment r),
               returnedBuffer, detectMimeTypeFromBuffer returnedBuffer)) \<and>
         (files w (inputPath f) = Some ib \<and> comment r = Some (js ''make it brighter'') \<longrightarrow>
            1 < length (requests w (processOneFile pf f (r # rs) w)) \<and>
            requests w (processOneFile pf f (r # rs) w) ! 1 =
              (PROMPT_TEXT @ newline @ js ''make it brighter'',
               returnedBuffer, detectMimeTypeFromBuffer returnedBuffer))"
proof -
  from assms(1) have er: "edit_result pf r = Some returnedBuffer"
    by (simp add: send_edit_result)
  have one: "1 < length (requests w (review_loop pf f ib c (r # rs) w)) \<and>
      requests w (review_loop pf f ib c (r # rs) w) ! 1 =
        (currentPrompt c @ newline @ promptComment (comment r),
         returnedBuffer, detectMimeTypeFromBuffer returnedBuffer)" for c
    using request_after_comments [of pf "[]" r returnedBuffer jpegBuffer f w ib c rs]
      er assms(2,3,4) by (simp add: with_comments_def)
  have many: "list_all (commenting pf) cs \<longrightarrow>
      length cs + 1 < length (requests w (review_loop pf f ib ctx (cs @ r # rs) w)) \<and>
      requests w (review_loop pf f ib ctx (cs @ r # rs) w) ! (length cs + 1) =
        (with_comments (currentPrompt ctx) cs @ newline @ promptComment (comment r),
         returnedBuffer, detectMimeTypeFromBuffer returnedBuffer)"
    using request_after_comments [OF _ er assms(2) assms(4) assms(3)] by blast
  have scripted: "files w (inputPath f) = Some ib \<and> comment r = Some (js ''make it brighter'') \<longrightarrow>
      1 < length (requests w (processOneFile pf f (r # rs) w)) \<and>
      requests w (processOneFile pf f (r # rs) w) ! 1 =
        (PROMPT_TEXT @ newline @ js ''make it brighter'',
         returnedBuffer, detectMimeTypeFromBuffer returnedBuffer)"
    using one [of "initial_context f ib"]
    by (auto simp: processOneFile_read make_it_brighter initial_context_def)
  have zero: "requests w (review_loop pf f ib ctx (r # rs) w) ! 0 =
      (currentPrompt ctx, workingBuffer ctx, workingMime ctx)"
    using first_request [of w pf f ib ctx "r # rs"] by (simp add: request_of_def)
  from zero one [of ctx] many scripted show ?thesis by blast
qed

text \<open>
  C3. After any history \<open>pre\<close> of comment and retry rounds, a round in which the operator
  chooses \<open>retry\<close> resets the Working Context to its initial value: the next edit call
  carries the base prompt alone, the bytes of the input file as they were read, and the
  MIME type chosen from the file name; from there the loop runs as a loop started on the
  initial context.
\<close>

theorem retry_resets_context:
  assumes "list_all (continuing pf) pre"
    and "saved_jpeg pf r \<noteq> None"
    and "menu r = Retry"
    and "outputPath f \<notin> write_protected w"
  shows "length pre + 1 < length (requests w (review_loop pf f ib ctx (pre @ r # rs) w)) \<and>
         requests w (review_loop pf f ib ctx (pre @ r # rs) w) ! (length pre + 1) =
           (PROMPT_TEXT, ib, chooseMimeTypeFromFilename f) \<and>
         (\<exists>w'. review_loop pf f ib ctx (pre @ r # rs) w =
                 review_loop pf f ib (initial_context f ib) rs w') \<and>
         (files w (inputPath f) = Some ib \<longrightarrow>
            length pre + 1 < length (requests w (processOneFile pf f (pre @ r # rs) w)) \<and>
            requests w (processOneFile pf f (pre @ r # rs) w) ! (length pre + 1) =
              (PROMPT_TEXT, ib, chooseMimeTypeFromFilename f))"
proof -
  have hist: "list_all (continuing pf) (pre @ [r])"
    using continuing_snoc [OF assms(1,2)] assms(3) by simp
  have ctx': "context_after pf f ib c (pre @ [r]) = initial_context f ib" for c
    by (simp add: context_after_snoc next_context_def assms(3))
  have req: "request_of (initial_context f ib) = (PROMPT_TEXT, ib, chooseMimeTypeFromFilename f)"
    by (simp add: request_of_def initial_context_def)
  have calls: "length pre + 1 < length (requests w (review_loop pf f ib c (pre @ r # rs) w)) \<and>
      requests w (review_loop pf f ib c (pre @ r # rs) w) ! (length pre + 1) =
        (PROMPT_TEXT, ib, chooseMimeTypeFromFilename f)" for c
    using requests_after_history [OF hist assms(4), of ib c rs] by (simp add: ctx' req)
  obtain w' where "review_loop pf f ib ctx ((pre @ [r]) @ rs) w =
      review_loop pf f ib (context_after pf f ib ctx (pre @ [r])) rs w'"
    using loop_after_history [OF hist assms(4)] by blast
  then have same: "\<exists>w'. review_loop pf f ib ctx (pre @ r # rs) w =
      review_loop pf f ib (initial_context f ib) rs w'"
    by (auto simp: ctx')
  from calls [of ctx] same calls [of "initial_context f ib"] show ?thesis
    by (simp add: processOneFile_read)
qed


lemma send_fst_independent:
  "fst (sendImageAndGetReturnedImage pf genAI p b m w) =
   fst (sendImageAndGetReturnedImage pf genAI p' b' m' w')"
  by (cases genAI) (simp_all add: sendImageAndGetReturnedImage_def Let_def)

lemma loop_no_image:
  assumes "fst (sendImageAndGetReturnedImage pf (reply r) (currentPrompt ctx) (workingBuffer ctx)
             (workingMime ctx) w) = Inr None"
  shows "review_loop pf f ib ctx (r # rs) w =
     (Returned, rs,
      emit (WarnNoImage f)
        (emit (EditCall (currentPrompt ctx) (workingBuffer ctx) (workingMime ctx)) w))"
proof -
  obtain res w1 where s: "sendImageAndGetReturnedImage pf (reply r) (currentPrompt ctx)
      (workingBuffer ctx) (workingMime ctx) w = (res, w1)"
    by (cases "sendImageAndGetReturnedImage pf (reply r) (currentPrompt ctx)
      (workingBuffer ctx) (workingMime ctx) w")
  with assms have res: "res = Inr None" by simp
  from s have w1: "w1 = emit (EditCall (currentPrompt ctx) (workingBuffer ctx) (workingMime ctx)) w"
    using send_world [of pf "reply r" "currentPrompt ctx" "workingBuffer ctx" "workingMime ctx" w]
    by simp
  show ?thesis by (simp add: review_loop.simps s res w1)
qed

text \<open>
  C4. In any iteration in which the edit client returns no image, the loop logs the
  warning and returns at once: the iteration adds the request and the warning to the
  trace and nothing else (no menu, no comment prompt), and leaves every file as it was.
  When this happens on the first call of a Job, the Job returns with no file written and
  the operator never asked.
\<close>

theorem no_image_ends_job:
  assumes "fst (sendImageAndGetReturnedImage pf (reply r) (currentPrompt ctx) (workingBuffer ctx)
             (workingMime ctx) w) = Inr None"
  shows "review_loop pf f ib ctx (r # rs) w =
           (Returned, rs,
            emit (WarnNoImage f)
              (emit (EditCall (currentPrompt ctx) (workingBuffer ctx) (workingMime ctx)) w)) \<and>
         files (world_of (review_loop pf f ib ctx (r # rs) w)) = files w \<and>
         new_events w (world_of (review_loop pf f ib ctx (r # rs) w)) =
           [EditCall (currentPrompt ctx) (workingBuffer ctx) (workingMime ctx), WarnNoImage f] \<and>
         (files w (inputPath f) = Some ib \<longrightarrow>
            outcome_of (processOneFile pf f (r # rs) w) = Returned \<and>
            rounds_left (processOneFile pf f (r # rs) w) = rs \<and>
            files (world_of (processOneFile pf f (r # rs) w)) = files w \<and>
            new_events w (world_of (processOneFile pf f (r # rs) w)) =
              [EditCall PROMPT_TEXT ib (chooseMimeTypeFromFilename f), WarnNoImage f])"
proof -
  have step: "review_loop pf f ib c (r # rs) w =
      (Returned, rs,
       emit (WarnNoImage f) (emit (EditCall (currentPrompt c) (workingBuffer c) (workingMime c)) w))"
    for c
  proof (rule loop_no_image)
    show "fst (sendImageAndGetReturnedImage pf (reply r) (currentPrompt c) (workingBuffer c)
        (workingMime c) w) = Inr None"
      using assms send_fst_independent by metis
  qed
  have a: "files (world_of (review_loop pf f ib c (r # rs) w)) = files w" for c
    by (simp add: step)
  have b: "new_events w (world_of (review_loop pf f ib c (r # rs) w)) =
      [EditCall (currentPrompt c) (workingBuffer c) (workingMime c), WarnNoImage f]" for c
    by (simp add: step new_events_def)
  have job: "files w (inputPath f) = Some ib \<longrightarrow>
      outcome_of (processOneFile pf f (r # rs) w) = Returned \<and>
      rounds_left (processOneFile pf f (r # rs) w) = rs \<and>
      files (world_of (processOneFile pf f (r # rs) w)) = files w \<and>
      new_events w (world_of (processOneFile pf f (r # rs) w)) =
        [EditCall PROMPT_TEXT ib (chooseMimeTypeFromFilename f), WarnNoImage f]"
    using a [of "initial_context f ib"] b [of "initial_context f ib"]
    by (auto simp: processOneFile_read step initial_context_def)
  from step [of ctx] a [of ctx] b [of ctx] job show ?thesis by blast
qed

lemma rm_swallowed_files:
  "p \<notin> delete_protected w \<Longrightarrow> files (rm_swallowed p w) = (files w)(p := None)"
  by (simp add: rm_swallowed_def rm_force_def)

lemma saved_jpeg_Some:
  "saved_jpeg pf r \<noteq> None \<Longrightarrow> \<exists>b j. edit_result pf r = Some b \<and> sharp_jpeg pf b = Some j"
  by (auto simp: saved_jpeg_def split: option.splits)

text \<open>A skip round, after any history of continuing rounds.\<close>

lemma loop_skip:
  assumes "list_all (continuing pf) pre"
    and "saved_jpeg pf r \<noteq> None"
    and "menu r = Skip"
    and "outputPath f \<notin> write_protected w"
  shows "\<exists>c w' j xs ws. review_loop pf f ib ctx (pre @ r # rs) w =
           (Returned, rs,
            rm_swallowed (inputPath f) (rm_swallowed (outputPath f) (menu_world pf f c j w'))) \<and>
         delete_protected w' = delete_protected w \<and>
         trace w' = trace w @ xs \<and> length (edit_calls xs) = length pre \<and>
         trace (menu_world pf f c j w') =
           trace w' @ EditCall (currentPrompt c) (workingBuffer c) (workingMime c) # ws \<and>
         edit_calls ws = []"
proof -
  let ?c = "context_after pf f ib ctx pre"
  obtain w' xs where h: "review_loop pf f ib ctx (pre @ r # rs) w = review_loop pf f ib ?c (r # rs) w'"
      "trace w' = trace w @ xs" "length (edit_calls xs) = length pre"
      "write_protected w' = write_protected w" "delete_protected w' = delete_protected w"
    using loop_after_history [OF assms(1,4)] by blast
  obtain b j where bj: "edit_result pf r = Some b" "sharp_jpeg pf b = Some j"
    using saved_jpeg_Some [OF assms(2)] by blast
  have a: "fst (sendImageAndGetReturnedImage pf (reply r) (currentPrompt ?c) (workingBuffer ?c)
      (workingMime ?c) w') = Inr (Some b)"
    by (simp add: send_edit_result bj(1))
  have wp: "outputPath f \<notin> write_protected w'" using h(4) assms(4) by simp
  have step: "review_loop pf f ib ?c (r # rs) w' =
      (Returned, rs,
       rm_swallowed (inputPath f) (rm_swallowed (outputPath f) (menu_world pf f ?c j w')))"
    using loop_at_menu [OF a bj(2) wp, of ib rs] by (simp add: assms(3))
  obtain ws where ws: "trace (menu_world pf f ?c j w') =
      trace w' @ EditCall (currentPrompt ?c) (workingBuffer ?c) (workingMime ?c) # ws"
      "edit_calls ws = []"
    using menu_world_trace by blast
  from h(1) step h(5) h(2) h(3) ws show ?thesis by metis
qed

lemma rm_swallowed_keeps_absent:
  "files w q = None \<Longrightarrow> files (rm_swallowed p w) q = None"
  by (simp add: rm_swallowed_def rm_force_def)

lemma rm_swallowed_deletes:
  "p \<notin> delete_protected w \<Longrightarrow> files (rm_swallowed p w) p = None"
  by (simp add: rm_swallowed_files)

lemma input_output_distinct: "inputPath f \<noteq> outputPath f"
  by (simp add: inputPath_def outputPath_def path_join_def INPUT_DIR_def OUTPUT_DIR_def js_def)

lemma menu_world_input_file:
  "files (menu_world pf f ctx j w) (inputPath f) = files w (inputPath f)"
  by (auto simp: menu_world_def copy_exif_logged_def copyAllExifFromTo_def input_output_distinct
      split: option.splits)

lemma menu_world_output_file:
  "files (menu_world pf f ctx j w) (outputPath f) \<noteq> None"
  by (auto simp: menu_world_def copy_exif_logged_def copyAllExifFromTo_def
      split: option.splits)

lemma rm_swallowed_other:
  "p \<noteq> q \<Longrightarrow> files (rm_swallowed p w) q = files w q"
  by (simp add: rm_swallowed_def rm_force_def)

lemma rm_swallowed_protected:
  "p \<in> delete_protected w \<Longrightarrow> files (rm_swallowed p w) p = files w p"
  by (auto simp: rm_swallowed_def rm_force_def)

lemma skip_world_files:
  "(outputPath f \<in> delete_protected m \<longrightarrow>
      files (rm_swallowed (inputPath f) (rm_swallowed (outputPath f) m)) (outputPath f) =
        files m (outputPath f)) \<and>
   (inputPath f \<in> delete_protected m \<longrightarrow>
      files (rm_swallowed (inputPath f) (rm_swallowed (outputPath f) m)) (inputPath f) =
        files m (inputPath f))"
proof -
  have io: "inputPath f \<noteq> outputPath f" by (rule input_output_distinct)
  then have oi: "outputPath f \<noteq> inputPath f" by metis
  have a: "outputPath f \<in> delete_protected m \<longrightarrow>
      files (rm_swallowed (inputPath f) (rm_swallowed (outputPath f) m)) (outputPath f) =
        files m (outputPath f)"
    by (simp add: rm_swallowed_other [OF io] rm_swallowed_protected)
  have b: "inputPath f \<in> delete_protected m \<longrightarrow>
      files (rm_swallowed (inputPath f) (rm_swallowed (outputPath f) m)) (inputPath f) =
        files m (inputPath f)"
    by (simp add: rm_swallowed_other [OF oi] rm_swallowed_protected)
  from a b show ?thesis by blast
qed

text \<open>No iteration changes an input file that cannot be deleted.\<close>

lemma loop_keeps_protected_input:
  "inputPath f \<in> delete_protected w \<Longrightarrow>
   files (world_of (review_loop pf f ib ctx rs w)) (inputPath f) = files w (inputPath f)"
proof (induction rs arbitrary: ctx w)
  case Nil
  then show ?case by (simp add: review_loop.simps)
next
  case (Cons r rs)
  let ?call = "EditCall (currentPrompt ctx) (workingBuffer ctx) (workingMime ctx)"
  obtain res w1 where s: "sendImageAndGetReturnedImage pf (reply r) (currentPrompt ctx)
      (workingBuffer ctx) (workingMime ctx) w = (res, w1)"
    by (cases "sendImageAndGetReturnedImage pf (reply r) (currentPrompt ctx)
      (workingBuffer ctx) (workingMime ctx) w")
  then have w1: "w1 = emit ?call w"
    using send_world [of pf "reply r" "currentPrompt ctx" "workingBuffer ctx" "workingMime ctx" w]
    by simp
  show ?case
  proof (cases "\<exists>b j. res = Inr (Some b) \<and> sharp_jpeg pf b = Some j \<and> outputPath f \<notin> write_protected w")
    case False
    then show ?thesis
      by (auto simp: review_loop.simps s w1 writeFile_def split: sum.splits option.splits)
  next
    case True
    then obtain b j where h: "res = Inr (Some b)" "sharp_jpeg pf b = Some j"
      "outputPath f \<notin> write_protected w" by blast
    from s h(1) have a: "fst (sendImageAndGetReturnedImage pf (reply r) (currentPrompt ctx)
        (workingBuffer ctx) (workingMime ctx) w) = Inr (Some b)" by simp
    note step = loop_at_menu [OF a h(2) h(3), of ib rs]
    let ?m = "menu_world pf f ctx j w"
    have m: "files ?m (inputPath f) = files w (inputPath f)" by (rule menu_world_input_file)
    have pm: "inputPath f \<in> delete_protected ?m" using Cons.prems by simp
    show ?thesis
    proof (cases "menu r")
      case Accept
      with step m show ?thesis by simp
    next
      case Comment
      have "inputPath f \<in> delete_protected (emit CommentAsked ?m)" using pm by simp
      from Cons.IH [OF this] Comment step m show ?thesis by simp
    next
      case Retry
      from Cons.IH [OF pm] Retry step m show ?thesis by simp
    next
      case Skip
      from skip_world_files [of f ?m] pm
      have "files (rm_swallowed (inputPath f) (rm_swallowed (outputPath f) ?m)) (inputPath f) =
          files ?m (inputPath f)" by blast
      with Skip step m show ?thesis by simp
    qed
  qed
qed

text \<open>
  C5, as amended. In a Job whose rounds are a history \<open>pre\<close> of comment and retry rounds
  and then a round in which the operator chooses \<open>skip\<close>, the loop returns after that
  round and sends no further request (one per round, the skip round included). The
  output file and the input file are each absent afterwards when its deletion does not
  fail. A deletion that fails is dropped: the Job returns all the same, the output file
  is still there, and the input file is as it was before the Job.
\<close>

theorem skip_deletes_both_files:
  assumes "list_all (continuing pf) pre"
    and "saved_jpeg pf r \<noteq> None"
    and "menu r = Skip"
    and "outputPath f \<notin> write_protected w"
  shows "outcome_of (review_loop pf f ib ctx (pre @ r # rs) w) = Returned \<and>
         rounds_left (review_loop pf f ib ctx (pre @ r # rs) w) = rs \<and>
         length (requests w (review_loop pf f ib ctx (pre @ r # rs) w)) = length pre + 1 \<and>
         (outputPath f \<notin> delete_protected w \<longrightarrow>
            files (world_of (review_loop pf f ib ctx (pre @ r # rs) w)) (outputPath f) = None) \<and>
         (inputPath f \<notin> delete_protected w \<longrightarrow>
            files (world_of (review_loop pf f ib ctx (pre @ r # rs) w)) (inputPath f) = None) \<and>
         (outputPath f \<in> delete_protected w \<longrightarrow>
            files (world_of (review_loop pf f ib ctx (pre @ r # rs) w)) (outputPath f) \<noteq> None) \<and>
         (inputPath f \<in> delete_protected w \<longrightarrow>
            files (world_of (review_loop pf f ib ctx (pre @ r # rs) w)) (inputPath f) =
              files w (inputPath f)) \<and>
         (files w (inputPath f) = Some ib \<longrightarrow>
            outcome_of (processOneFile pf f (pre @ r # rs) w) = Returned \<and>
            rounds_left (processOneFile pf f (pre @ r # rs) w) = rs \<and>
            length (requests w (processOneFile pf f (pre @ r # rs) w)) = length pre + 1 \<and>
            (outputPath f \<notin> delete_protected w \<longrightarrow>
               files (world_of (processOneFile pf f (pre @ r # rs) w)) (outputPath f) = None) \<and>
            (inputPath f \<notin> delete_protected w \<longrightarrow>
               files (world_of (processOneFile pf f (pre @ r # rs) w)) (inputPath f) = None) \<and>
            (outputPath f \<in> delete_protected w \<longrightarrow>
               files (world_of (processOneFile pf f (pre @ r # rs) w)) (outputPath f) \<noteq> None) \<and>
            (inputPath f \<in> delete_protected w \<longrightarrow>
               files (world_of (processOneFile pf f (pre @ r # rs) w)) (inputPath f) = Some ib))"
proof -
  have main: "outcome_of (review_loop pf f ib c0 (pre @ r # rs) w) = Returned \<and>
      rounds_left (review_loop pf f ib c0 (pre @ r # rs) w) = rs \<and>
      length (requests w (review_loop pf f ib c0 (pre @ r # rs) w)) = length pre + 1 \<and>
      (outputPath f \<notin> delete_protected w \<longrightarrow>
         files (world_of (review_loop pf f ib c0 (pre @ r # rs) w)) (outputPath f) = None) \<and>
      (inputPath f \<notin> delete_protected w \<longrightarrow>
         files (world_of (review_loop pf f ib c0 (pre @ r # rs) w)) (inputPath f) = None) \<and>
      (outputPath f \<in> delete_protected w \<longrightarrow>
         files (world_of (review_loop pf f ib c0 (pre @ r # rs) w)) (outputPath f) \<noteq> None) \<and>
      (inputPath f \<in> delete_protected w \<longrightarrow>
         files (world_of (review_loop pf f ib c0 (pre @ r # rs) w)) (inputPath f) =
           files w (inputPath f))" for c0
  proof -
    obtain c w' j xs ws where h: "review_loop pf f ib c0 (pre @ r # rs) w =
          (Returned, rs,
           rm_swallowed (inputPath f) (rm_swallowed (outputPath f) (menu_world pf f c j w')))"
        "delete_protected w' = delete_protected w"
        "trace w' = trace w @ xs" "length (edit_calls xs) = length pre"
        "trace (menu_world pf f c j w') =
           trace w' @ EditCall (currentPrompt c) (workingBuffer c) (workingMime c) # ws"
        "edit_calls ws = []"
      using loop_skip [OF assms(1,2,3,4)] by blast
    let ?m = "menu_world pf f c j w'"
    let ?v = "rm_swallowed (outputPath f) ?m"
    have out: "outputPath f \<notin> delete_protected w \<longrightarrow>
        files (rm_swallowed (inputPath f) ?v) (outputPath f) = None"
    proof
      assume "outputPath f \<notin> delete_protected w"
      then have "outputPath f \<notin> delete_protected ?m" using h(2) by simp
      then have "files ?v (outputPath f) = None" by (rule rm_swallowed_deletes)
      then show "files (rm_swallowed (inputPath f) ?v) (outputPath f) = None"
        by (rule rm_swallowed_keeps_absent)
    qed
    have inp: "inputPath f \<notin> delete_protected w \<longrightarrow>
        files (rm_swallowed (inputPath f) ?v) (inputPath f) = None"
    proof
      assume "inputPath f \<notin> delete_protected w"
      then have "inputPath f \<notin> delete_protected ?v" using h(2) by simp
      then show "files (rm_swallowed (inputPath f) ?v) (inputPath f) = None"
        by (rule rm_swallowed_deletes)
    qed
    have out_stays: "outputPath f \<in> delete_protected w \<longrightarrow>
        files (rm_swallowed (inputPath f) ?v) (outputPath f) \<noteq> None"
    proof
      assume "outputPath f \<in> delete_protected w"
      then have "outputPath f \<in> delete_protected ?m" using h(2) by simp
      with skip_world_files [of f ?m]
      have "files (rm_swallowed (inputPath f) ?v) (outputPath f) = files ?m (outputPath f)"
        by blast
      with menu_world_output_file [of pf f c j w']
      show "files (rm_swallowed (inputPath f) ?v) (outputPath f) \<noteq> None" by simp
    qed
    have inp_stays: "inputPath f \<in> delete_protected w \<longrightarrow>
        files (world_of (review_loop pf f ib c0 (pre @ r # rs) w)) (inputPath f) =
          files w (inputPath f)"
      using loop_keeps_protected_input by blast
    have tr: "new_events w (rm_swallowed (inputPath f) ?v) =
        xs @ EditCall (currentPrompt c) (workingBuffer c) (workingMime c) # ws"
      by (simp add: new_events_def h(5) h(3))
    have len: "length (requests w (review_loop pf f ib c0 (pre @ r # rs) w)) = length pre + 1"
      by (simp add: h(1) requests_def tr h(4) h(6))
    from out inp out_stays len have "outcome_of (review_loop pf f ib c0 (pre @ r # rs) w) = Returned \<and>
      rounds_left (review_loop pf f ib c0 (pre @ r # rs) w) = rs \<and>
      length (requests w (review_loop pf f ib c0 (pre @ r # rs) w)) = length pre + 1 \<and>
      (outputPath f \<notin> delete_protected w \<longrightarrow>
         files (world_of (review_loop pf f ib c0 (pre @ r # rs) w)) (outputPath f) = None) \<and>
      (inputPath f \<notin> delete_protected w \<longrightarrow>
         files (world_of (review_loop pf f ib c0 (pre @ r # rs) w)) (inputPath f) = None) \<and>
      (outputPath f \<in> delete_protected w \<longrightarrow>
         files (world_of (review_loop pf f ib c0 (pre @ r # rs) w)) (outputPath f) \<noteq> None)"
      by (simp add: h(1))
    with inp_stays show ?thesis by blast
  qed
  have job: "files w (inputPath f) = Some ib \<longrightarrow>
      processOneFile pf f (pre @ r # rs) w =
        review_loop pf f ib (initial_context f ib) (pre @ r # rs) w"
    using processOneFile_read by blast
  from main [of ctx] main [of "initial_context f ib"] job show ?thesis
    by auto
qed

lemma loop_comment_request:
  assumes "fst (sendImageAndGetReturnedImage pf (reply r) (currentPrompt ctx) (workingBuffer ctx)
             (workingMime ctx) w) = Inr (Some returnedBuffer)"
    and "sharp_jpeg pf returnedBuffer = Some jpegBuffer"
    and "outputPath f \<notin> write_protected w"
    and "menu r = Comment"
  shows "1 < length (requests w (review_loop pf f ib ctx (r # rs) w)) \<and>
         requests w (review_loop pf f ib ctx (r # rs) w) ! 1 =
           (currentPrompt ctx @ newline @ promptComment (comment r),
            returnedBuffer, detectMimeTypeFromBuffer returnedBuffer)"
proof -
  from assms(1) have er: "edit_result pf r = Some returnedBuffer"
    by (simp add: send_edit_result)
  show ?thesis
    using request_after_comments [of pf "[]" r returnedBuffer jpegBuffer f w ib ctx rs]
      er assms(2,3,4) by (simp add: with_comments_def)
qed

text \<open>
  C10. The comment prompt returns the empty string for a missing answer, and otherwise
  the answer without its leading and trailing white space: the answer is white space,
  then the result, then white space, and a result that is not empty neither starts nor
  ends with white space; it can be empty. In a comment round, what is appended to the
  prompt after the newline is this trimmed text.
\<close>

theorem comment_is_trimmed:
  "promptComment None = [] \<and>
   promptComment (Some (js ''   '')) = [] \<and>
   (\<exists>pre post. s = pre @ promptComment (Some s) @ post \<and>
      list_all isWhiteSpace pre \<and> list_all isWhiteSpace post) \<and>
   (promptComment answer \<noteq> [] \<longrightarrow>
      \<not> isWhiteSpace (hd (promptComment answer)) \<and> \<not> isWhiteSpace (last (promptComment answer))) \<and>
   (fst (sendImageAndGetReturnedImage pf (reply r) (currentPrompt ctx) (workingBuffer ctx)
          (workingMime ctx) w) = Inr (Some returnedBuffer) \<and>
    sharp_jpeg pf returnedBuffer = Some jpegBuffer \<and>
    outputPath f \<notin> write_protected w \<and> menu r = Comment \<longrightarrow>
      1 < length (requests w (review_loop pf f ib ctx (r # rs) w)) \<and>
      fst (requests w (review_loop pf f ib ctx (r # rs) w) ! 1) =
        currentPrompt ctx @ newline @ trim (case comment r of None \<Rightarrow> [] | Some c \<Rightarrow> c))"
proof -
  have a: "promptComment None = []" "promptComment (Some (js ''   '')) = []"
    by (simp_all add: promptComment_def trim_examples)
  have b: "\<exists>pre post. s = pre @ promptComment (Some s) @ post \<and>
      list_all isWhiteSpace pre \<and> list_all isWhiteSpace post"
    using trim_decompose [of s] by (simp add: promptComment_def)
  have c: "promptComment answer \<noteq> [] \<longrightarrow>
      \<not> isWhiteSpace (hd (promptComment answer)) \<and> \<not> isWhiteSpace (last (promptComment answer))"
    unfolding promptComment_def using trim_hd trim_last by blast
  have d: "fst (sendImageAndGetReturnedImage pf (reply r) (currentPrompt ctx) (workingBuffer ctx)
          (workingMime ctx) w) = Inr (Some returnedBuffer) \<and>
      sharp_jpeg pf returnedBuffer = Some jpegBuffer \<and>
      outputPath f \<notin> write_protected w \<and> menu r = Comment \<longrightarrow>
      1 < length (requests w (review_loop pf f ib ctx (r # rs) w)) \<and>
      fst (requests w (review_loop pf f ib ctx (r # rs) w) ! 1) =
        currentPrompt ctx @ newline @ trim (case comment r of None \<Rightarrow> [] | Some c \<Rightarrow> c)"
    using loop_comment_request [of pf r ctx w returnedBuffer jpegBuffer f ib rs]
    by (auto simp: promptComment_def)
  from a b c d show ?thesis by blast
qed

subsection \<open>The example world at work\<close>

lemma paths_example:
  "outputPath photo \<noteq> inputPath photo"
  by (simp add: outputPath_def inputPath_def path_join_def OUTPUT_DIR_def INPUT_DIR_def js_def)

lemma stub_image:
  "fst (sendImageAndGetReturnedImage stub_platform (reply (round_of image_reply c t)) p b m w) =
     Inr (Some PNG_SIGNATURE)"
  by (simp add: sendImageAndGetReturnedImage_def Let_def round_of_def image_reply_def
      response_parts_def stub_platform_def)

lemma stub_no_image:
  "fst (sendImageAndGetReturnedImage stub_platform (reply (round_of text_reply c t)) p b m w) =
     Inr None"
  by (simp add: sendImageAndGetReturnedImage_def Let_def round_of_def text_reply_def
      response_parts_def stub_platform_def)

lemma stub_sharp: "sharp_jpeg stub_platform PNG_SIGNATURE = Some (JPEG_SOI @ [0xE0])"
  by (simp add: stub_platform_def PNG_SIGNATURE_def)

lemma stub_saved: "saved_jpeg stub_platform (round_of image_reply c t) \<noteq> None"
  by (simp add: saved_jpeg_def edit_result_def round_of_def image_reply_def
      response_parts_def stub_platform_def PNG_SIGNATURE_def)

lemma example_world_fields:
  "write_protected example_world = {}"
  "delete_protected example_world = {}"
  "files example_world (inputPath photo) = Some photo_bytes"
  "trace example_world = []"
  by (simp_all add: example_world_def)

lemma round_of_fields [simp]:
  "menu (round_of g c t) = c" "comment (round_of g c t) = t" "reply (round_of g c t) = g"
  by (simp_all add: round_of_def)

theorem comment_sets_next_request_witness:
  "requests example_world
     (processOneFile stub_platform photo
        [round_of image_reply Comment (Some (js ''make it brighter'')),
         round_of image_reply Accept None] example_world) ! 1 =
   (PROMPT_TEXT @ newline @ js ''make it brighter'', PNG_SIGNATURE, js ''image/png'')"
proof -
  have h3: "outputPath photo \<notin> write_protected example_world"
    by (simp add: example_world_fields)
  have h4: "menu (round_of image_reply Comment (Some (js ''make it brighter''))) = Comment"
    by simp
  have png: "detectMimeTypeFromBuffer PNG_SIGNATURE = js ''image/png''"
    by (simp add: detect_unfold PNG_SIGNATURE_def)
  show ?thesis
    using comment_sets_next_request [where ctx = "initial_context photo photo_bytes"
        and ib = photo_bytes and rs = "[round_of image_reply Accept None]" and cs = "[]",
        OF stub_image stub_sharp h3 h4]
    by (simp add: example_world_fields png)
qed


lemma photo_mime: "chooseMimeTypeFromFilename photo = js ''image/jpeg''"
  by (simp add: chooseMimeTypeFromFilename_def photo_def extname_def last_segment_def
      toLowerCase_def js_def Let_def)

lemma stub_continuing:
  "continuing stub_platform (round_of image_reply Comment t)"
  "continuing stub_platform (round_of image_reply Retry t)"
  by (simp_all add: continuing_def stub_saved)

theorem retry_resets_context_witness:
  "requests (example_world\<lparr>files := [inputPath photo \<mapsto> PNG_SIGNATURE]\<rparr>)
     (processOneFile stub_platform photo
        [round_of image_reply Comment (Some (js ''make it brighter'')),
         round_of image_reply Retry None,
         round_of image_reply Accept None]
        (example_world\<lparr>files := [inputPath photo \<mapsto> PNG_SIGNATURE]\<rparr>)) ! 2 =
   (PROMPT_TEXT, PNG_SIGNATURE, js ''image/jpeg'') \<and>
   detectMimeTypeFromBuffer PNG_SIGNATURE = js ''image/png''"
proof -
  let ?w = "example_world\<lparr>files := [inputPath photo \<mapsto> PNG_SIGNATURE]\<rparr>"
  have h1: "list_all (continuing stub_platform)
      [round_of image_reply Comment (Some (js ''make it brighter''))]"
    by (simp add: stub_continuing)
  have h2: "saved_jpeg stub_platform (round_of image_reply Retry None) \<noteq> None"
    by (rule stub_saved)
  have h3: "menu (round_of image_reply Retry None) = Retry" by simp
  have h4: "outputPath photo \<notin> write_protected ?w" by (simp add: example_world_fields)
  have png: "detectMimeTypeFromBuffer PNG_SIGNATURE = js ''image/png''"
    by (simp add: detect_unfold PNG_SIGNATURE_def)
  show ?thesis
    using retry_resets_context [where ib = PNG_SIGNATURE
        and rs = "[round_of image_reply Accept None]"
        and ctx = "initial_context photo PNG_SIGNATURE", OF h1 h2 h3 h4]
    by (simp add: photo_mime png numeral_2_eq_2)
qed

theorem no_image_ends_job_witness:
  "new_events example_world
     (world_of (processOneFile stub_platform photo [round_of text_reply Accept None] example_world)) =
     [EditCall PROMPT_TEXT photo_bytes (js ''image/jpeg''), WarnNoImage photo] \<and>
   files (world_of (processOneFile stub_platform photo [round_of text_reply Accept None] example_world))
     (outputPath photo) = None \<and>
   outcome_of (processOneFile stub_platform photo [round_of text_reply Accept None] example_world) =
     Returned"
proof -
  have out: "files example_world (outputPath photo) = None"
    by (simp add: example_world_def paths_example)
  show ?thesis
    using no_image_ends_job [where ctx = "initial_context photo photo_bytes" and f = photo
        and ib = photo_bytes and rs = "[]", OF stub_no_image]
    by (simp add: example_world_fields photo_mime out)
qed

theorem skip_deletes_both_files_witness:
  "files (world_of (processOneFile stub_platform photo
      [round_of image_reply Comment None, round_of image_reply Skip None] example_world))
     (outputPath photo) = None \<and>
   files (world_of (processOneFile stub_platform photo
      [round_of image_reply Comment None, round_of image_reply Skip None] example_world))
     (inputPath photo) = None \<and>
   files example_world (inputPath photo) = Some photo_bytes \<and>
   outcome_of (processOneFile stub_platform photo
      [round_of image_reply Comment None, round_of image_reply Skip None] example_world) = Returned \<and>
   outcome_of (processOneFile stub_platform photo
      [round_of image_reply Comment None, round_of image_reply Skip None]
      (example_world\<lparr>delete_protected := {outputPath photo, inputPath photo}\<rparr>)) = Returned \<and>
   files (world_of (processOneFile stub_platform photo
      [round_of image_reply Comment None, round_of image_reply Skip None]
      (example_world\<lparr>delete_protected := {outputPath photo, inputPath photo}\<rparr>)))
     (outputPath photo) \<noteq> None \<and>
   files (world_of (processOneFile stub_platform photo
      [round_of image_reply Comment None, round_of image_reply Skip None]
      (example_world\<lparr>delete_protected := {outputPath photo, inputPath photo}\<rparr>)))
     (inputPath photo) = Some photo_bytes"
proof -
  let ?w = "example_world\<lparr>delete_protected := {outputPath photo, inputPath photo}\<rparr>"
  have h1: "list_all (continuing stub_platform) [round_of image_reply Comment None]"
    by (simp add: stub_continuing)
  have h2: "saved_jpeg stub_platform (round_of image_reply Skip None) \<noteq> None"
    by (rule stub_saved)
  have h3: "menu (round_of image_reply Skip None) = Skip" by simp
  have h4: "outputPath photo \<notin> write_protected example_world"
    and h5: "outputPath photo \<notin> delete_protected example_world"
    and h6: "inputPath photo \<notin> delete_protected example_world"
    by (simp_all add: example_world_fields)
  have k4: "outputPath photo \<notin> write_protected ?w" by (simp add: example_world_fields)
  have k5: "outputPath photo \<in> delete_protected ?w" and k6: "inputPath photo \<in> delete_protected ?w"
    by simp_all
  have k7: "files ?w (inputPath photo) = Some photo_bytes" by (simp add: example_world_fields)
  have a: "files (world_of (processOneFile stub_platform photo
      [round_of image_reply Comment None, round_of image_reply Skip None] example_world))
       (outputPath photo) = None \<and>
     files (world_of (processOneFile stub_platform photo
      [round_of image_reply Comment None, round_of image_reply Skip None] example_world))
       (inputPath photo) = None \<and>
     outcome_of (processOneFile stub_platform photo
      [round_of image_reply Comment None, round_of image_reply Skip None] example_world) = Returned"
    using skip_deletes_both_files [where ib = photo_bytes and rs = "[]"
        and ctx = "initial_context photo photo_bytes", OF h1 h2 h3 h4] h5 h6
    by (simp add: example_world_fields)
  have b: "outcome_of (processOneFile stub_platform photo
      [round_of image_reply Comment None, round_of image_reply Skip None] ?w) = Returned \<and>
     files (world_of (processOneFile stub_platform photo
      [round_of image_reply Comment None, round_of image_reply Skip None] ?w))
       (outputPath photo) \<noteq> None \<and>
     files (world_of (processOneFile stub_platform photo
      [round_of image_reply Comment None, round_of image_reply Skip None] ?w))
       (inputPath photo) = Some photo_bytes"
    using skip_deletes_both_files [where ib = photo_bytes and rs = "[]"
        and ctx = "initial_context photo photo_bytes", OF h1 h2 h3 k4] k5 k6 k7
    by simp
  from a b show ?thesis by (simp add: example_world_fields)
qed

theorem comment_is_trimmed_witness:
  "fst (requests example_world
     (review_loop stub_platform photo photo_bytes (initial_context photo photo_bytes)
        [round_of image_reply Comment (Some (js ''  make it brighter ''))] example_world) ! 1) =
   PROMPT_TEXT @ newline @ js ''make it brighter'' \<and>
   \<not> isWhiteSpace (hd (promptComment (Some (js ''  make it brighter '')))) \<and>
   \<not> isWhiteSpace (last (promptComment (Some (js ''  make it brighter ''))))"
proof -
  have t: "trim (js ''  make it brighter '') = js ''make it brighter''"
    by (simp add: trim_def js_def isWhiteSpace_def)
  have ne: "promptComment (Some (js ''  make it brighter '')) \<noteq> []"
    by (simp add: promptComment_def t) (simp add: js_def)
  have h: "fst (sendImageAndGetReturnedImage stub_platform
        (reply (round_of image_reply Comment (Some (js ''  make it brighter ''))))
        (currentPrompt (initial_context photo photo_bytes))
        (workingBuffer (initial_context photo photo_bytes))
        (workingMime (initial_context photo photo_bytes)) example_world) = Inr (Some PNG_SIGNATURE) \<and>
      sharp_jpeg stub_platform PNG_SIGNATURE = Some (JPEG_SOI @ [0xE0]) \<and>
      outputPath photo \<notin> write_protected example_world \<and>
      menu (round_of image_reply Comment (Some (js ''  make it brighter ''))) = Comment"
    using stub_image stub_sharp by (simp add: example_world_fields)
  show ?thesis
    using comment_is_trimmed [where answer = "Some (js ''  make it brighter '')"
        and pf = stub_platform
        and r = "round_of image_reply Comment (Some (js ''  make it brighter ''))"
        and ctx = "initial_context photo photo_bytes" and w = example_world
        and returnedBuffer = PNG_SIGNATURE and jpegBuffer = "JPEG_SOI @ [0xE0]"
        and f = photo and ib = photo_bytes and rs = "[]"] ne h
    by (simp add: t initial_context_def)
qed

subsection \<open>The batch driver and the process\<close>

lemma summary_files_append [simp]:
  "summary_files (xs @ ys) = summary_files xs @ summary_files ys"
  by (induction xs rule: summary_files.induct) simp_all

lemma copy_exif_no_summary:
  "\<exists>ws. trace (copy_exif_logged pf f w) = trace w @ ws \<and> summary_files ws = []"
proof (cases "copyAllExifFromTo pf (inputPath f) (outputPath f) w")
  case (Inl err)
  then have "trace (copy_exif_logged pf f w) = trace w @ [WarnExifFailed f err]"
    by (simp add: copy_exif_logged_def)
  then show ?thesis by simp
next
  case (Inr w')
  then have "trace w' = trace w"
    by (auto simp: copyAllExifFromTo_def split: option.splits)
  with Inr have "trace (copy_exif_logged pf f w) = trace w @ []"
    by (simp add: copy_exif_logged_def)
  then show ?thesis by (metis summary_files.simps(1))
qed

lemma menu_world_no_summary:
  "\<exists>ws. trace (menu_world pf f ctx j w) = trace w @ ws \<and> summary_files ws = []"
proof -
  let ?w2 = "(emit (EditCall (currentPrompt ctx) (workingBuffer ctx) (workingMime ctx)) w)
             \<lparr>files := (files w)(outputPath f \<mapsto> j)\<rparr>"
  obtain ws where ws: "trace (copy_exif_logged pf f ?w2) = trace ?w2 @ ws" "summary_files ws = []"
    using copy_exif_no_summary by blast
  have "trace (menu_world pf f ctx j w) =
     trace w @ (EditCall (currentPrompt ctx) (workingBuffer ctx) (workingMime ctx) # ws @ [MenuShown f])"
    by (simp add: menu_world_def ws(1))
  moreover have "summary_files
      (EditCall (currentPrompt ctx) (workingBuffer ctx) (workingMime ctx) # ws @ [MenuShown f]) = []"
    by (simp add: ws(2))
  ultimately show ?thesis by blast
qed

text \<open>An iteration ends the Job, or its round is a continuing one and the loop goes on.\<close>

lemma loop_step_cases:
  "(\<exists>out w' es. out \<noteq> Pending \<and> review_loop pf f ib ctx (r # rs) w = (out, rs, w') \<and>
       trace w' = trace w @ es \<and> summary_files es = []) \<or>
   (continuing pf r \<and>
     (\<exists>c' w' es. review_loop pf f ib ctx (r # rs) w = review_loop pf f ib c' rs w' \<and>
       trace w' = trace w @ es \<and> summary_files es = []))"
proof -
  let ?call = "EditCall (currentPrompt ctx) (workingBuffer ctx) (workingMime ctx)"
  obtain res w1 where s: "sendImageAndGetReturnedImage pf (reply r) (currentPrompt ctx)
      (workingBuffer ctx) (workingMime ctx) w = (res, w1)"
    by (cases "sendImageAndGetReturnedImage pf (reply r) (currentPrompt ctx)
      (workingBuffer ctx) (workingMime ctx) w")
  then have w1: "w1 = emit ?call w"
    using send_world [of pf "reply r" "currentPrompt ctx" "workingBuffer ctx" "workingMime ctx" w]
    by simp
  have tr1: "trace w1 = trace w @ [?call]" "summary_files [?call] = []" by (simp_all add: w1)
  show ?thesis
  proof (cases "\<exists>b j. res = Inr (Some b) \<and> sharp_jpeg pf b = Some j \<and> outputPath f \<notin> write_protected w")
    case False
    have "\<exists>out. out \<noteq> Pending \<and>
        (review_loop pf f ib ctx (r # rs) w = (out, rs, w1) \<or>
         review_loop pf f ib ctx (r # rs) w = (out, rs, emit (WarnNoImage f) w1))"
      using False
      by (auto simp: review_loop.simps s w1 writeFile_def split: sum.splits option.splits)
    then obtain out where out: "out \<noteq> Pending"
        "review_loop pf f ib ctx (r # rs) w = (out, rs, w1) \<or>
         review_loop pf f ib ctx (r # rs) w = (out, rs, emit (WarnNoImage f) w1)" by blast
    from out(2) show ?thesis
    proof
      assume "review_loop pf f ib ctx (r # rs) w = (out, rs, w1)"
      with out(1) tr1 show ?thesis by blast
    next
      assume a: "review_loop pf f ib ctx (r # rs) w = (out, rs, emit (WarnNoImage f) w1)"
      have "trace (emit (WarnNoImage f) w1) = trace w @ [?call, WarnNoImage f]"
        "summary_files [?call, WarnNoImage f] = []" by (simp_all add: w1)
      with a out(1) show ?thesis by blast
    qed
  next
    case True
    then obtain b j where h: "res = Inr (Some b)" "sharp_jpeg pf b = Some j"
      "outputPath f \<notin> write_protected w" by blast
    from s h(1) have a: "fst (sendImageAndGetReturnedImage pf (reply r) (currentPrompt ctx)
        (workingBuffer ctx) (workingMime ctx) w) = Inr (Some b)" by simp
    then have er: "edit_result pf r = Some b" by (simp add: send_edit_result)
    with h(2) have sj: "saved_jpeg pf r \<noteq> None" by (simp add: saved_jpeg_def)
    note step = loop_at_menu [OF a h(2) h(3), of ib rs]
    obtain ws where ws: "trace (menu_world pf f ctx j w) = trace w @ ws" "summary_files ws = []"
      using menu_world_no_summary by blast
    show ?thesis
    proof (cases "menu r")
      case Accept
      with step have "review_loop pf f ib ctx (r # rs) w = (Returned, rs, menu_world pf f ctx j w)"
        by simp
      with ws show ?thesis by blast
    next
      case Comment
      with step have "review_loop pf f ib ctx (r # rs) w =
          review_loop pf f ib (comment_context ctx b (promptComment (comment r))) rs
            (emit CommentAsked (menu_world pf f ctx j w))" by simp
      moreover have "trace (emit CommentAsked (menu_world pf f ctx j w)) = trace w @ (ws @ [CommentAsked])"
        "summary_files (ws @ [CommentAsked]) = []" by (simp_all add: ws)
      moreover have "continuing pf r" using sj Comment by (simp add: continuing_def)
      ultimately show ?thesis by blast
    next
      case Retry
      with step have "review_loop pf f ib ctx (r # rs) w =
          review_loop pf f ib (initial_context f ib) rs (menu_world pf f ctx j w)" by simp
      moreover have "continuing pf r" using sj Retry by (simp add: continuing_def)
      ultimately show ?thesis using ws by blast
    next
      case Skip
      with step have "review_loop pf f ib ctx (r # rs) w =
          (Returned, rs,
           rm_swallowed (inputPath f) (rm_swallowed (outputPath f) (menu_world pf f ctx j w)))"
        by simp
      moreover have "trace (rm_swallowed (inputPath f) (rm_swallowed (outputPath f)
          (menu_world pf f ctx j w))) = trace w @ ws" by (simp add: ws)
      ultimately show ?thesis using ws(2) by blast
    qed
  qed
qed

lemma loop_ends:
  "filter (ending pf) rs \<noteq> [] \<Longrightarrow>
   outcome_of (review_loop pf f ib ctx rs w) \<noteq> Pending \<and>
   length (filter (ending pf) rs) \<le>
     Suc (length (filter (ending pf) (rounds_left (review_loop pf f ib ctx rs w)))) \<and>
   (\<exists>es. trace (world_of (review_loop pf f ib ctx rs w)) = trace w @ es \<and> summary_files es = [])"
proof (induction rs arbitrary: ctx w)
  case Nil
  then show ?case by simp
next
  case (Cons r rs)
  from loop_step_cases [of pf f ib ctx r rs w] show ?case
  proof
    assume "\<exists>out w' es. out \<noteq> Pending \<and> review_loop pf f ib ctx (r # rs) w = (out, rs, w') \<and>
       trace w' = trace w @ es \<and> summary_files es = []"
    then obtain out w' es where h: "out \<noteq> Pending"
        "review_loop pf f ib ctx (r # rs) w = (out, rs, w')"
        "trace w' = trace w @ es" "summary_files es = []" by blast
    then show ?thesis by auto
  next
    assume "continuing pf r \<and>
     (\<exists>c' w' es. review_loop pf f ib ctx (r # rs) w = review_loop pf f ib c' rs w' \<and>
       trace w' = trace w @ es \<and> summary_files es = [])"
    then obtain c' w' es where h: "continuing pf r"
        "review_loop pf f ib ctx (r # rs) w = review_loop pf f ib c' rs w'"
        "trace w' = trace w @ es" "summary_files es = []" by blast
    from h(1) have same: "filter (ending pf) (r # rs) = filter (ending pf) rs"
      by (simp add: ending_def)
    with Cons.prems have ne: "filter (ending pf) rs \<noteq> []" by simp
    from Cons.IH [OF ne, of c' w'] obtain es' where ih:
        "outcome_of (review_loop pf f ib c' rs w') \<noteq> Pending"
        "length (filter (ending pf) rs) \<le>
           Suc (length (filter (ending pf) (rounds_left (review_loop pf f ib c' rs w'))))"
        "trace (world_of (review_loop pf f ib c' rs w')) = trace w' @ es'"
        "summary_files es' = []" by blast
    have "trace (world_of (review_loop pf f ib ctx (r # rs) w)) = trace w @ (es @ es')"
      "summary_files (es @ es') = []"
      by (simp_all add: h(2) ih(3) h(3) h(4) ih(4))
    then have "\<exists>es. trace (world_of (review_loop pf f ib ctx (r # rs) w)) = trace w @ es \<and>
        summary_files es = []" by blast
    with ih(1) ih(2) show ?thesis unfolding h(2) same by simp
  qed
qed

lemma processOneFile_ends:
  assumes "filter (ending pf) rs \<noteq> []"
  shows "outcome_of (processOneFile pf f rs w) \<noteq> Pending \<and>
   length (filter (ending pf) rs) \<le>
     Suc (length (filter (ending pf) (rounds_left (processOneFile pf f rs w)))) \<and>
   (\<exists>es. trace (world_of (processOneFile pf f rs w)) = trace w @ es \<and> summary_files es = [])"
proof (cases "files w (inputPath f)")
  case None
  then have "processOneFile pf f rs w = (Threw (ReadFileError (inputPath f)), rs, w)"
    by (simp add: processOneFile_def readFile_def)
  moreover have "trace w = trace w @ [] \<and> summary_files [] = []" by simp
  ultimately show ?thesis by (metis (no_types, lifting) fst_conv le_SucI order_refl outcome.distinct(5) snd_conv)
next
  case (Some ib)
  then show ?thesis using loop_ends [OF assms] by (simp add: processOneFile_read)
qed

lemma process_files_returns:
  "length found \<le> length (filter (ending pf) rs) \<Longrightarrow>
   outcome_of (process_files pf found rs w) = Returned \<and>
   (\<exists>es. trace (world_of (process_files pf found rs w)) = trace w @ es \<and>
      summary_files es = found)"
proof (induction found arbitrary: rs w)
  case Nil
  have "trace w = trace w @ [] \<and> summary_files [] = []" by simp
  then show ?case by (simp del: append_Nil2)
next
  case (Cons name more)
  from Cons.prems have ne: "filter (ending pf) rs \<noteq> []" by auto
  obtain out rs' w' where p: "processOneFile pf name rs w = (out, rs', w')"
    by (cases "processOneFile pf name rs w")
  from processOneFile_ends [OF ne, of name w] p obtain es where e:
      "out \<noteq> Pending" "length (filter (ending pf) rs) \<le> Suc (length (filter (ending pf) rs'))"
      "trace w' = trace w @ es" "summary_files es = []" by auto
  from e(2) Cons.prems have len: "length more \<le> length (filter (ending pf) rs')" by simp
  show ?case
  proof (cases out)
    case Returned
    from Cons.IH [OF len, of "emit (LogProcessed name) w'"] obtain es' where ih:
        "outcome_of (process_files pf more rs' (emit (LogProcessed name) w')) = Returned"
        "trace (world_of (process_files pf more rs' (emit (LogProcessed name) w'))) =
           trace (emit (LogProcessed name) w') @ es'"
        "summary_files es' = more" by blast
    have eq: "process_files pf (name # more) rs w =
        process_files pf more rs' (emit (LogProcessed name) w')"
      by (simp add: p Returned)
    have "trace (world_of (process_files pf (name # more) rs w)) =
        trace w @ (es @ LogProcessed name # es')"
      "summary_files (es @ LogProcessed name # es') = name # more"
      unfolding eq by (simp_all add: ih(2) e(3) e(4) ih(3))
    then have "\<exists>es. trace (world_of (process_files pf (name # more) rs w)) = trace w @ es \<and>
        summary_files es = name # more" by blast
    with ih(1) show ?thesis unfolding eq by simp
  next
    case (Threw err)
    from Cons.IH [OF len, of "emit (ErrorProcessing name err) w'"] obtain es' where ih:
        "outcome_of (process_files pf more rs' (emit (ErrorProcessing name err) w')) = Returned"
        "trace (world_of (process_files pf more rs' (emit (ErrorProcessing name err) w'))) =
           trace (emit (ErrorProcessing name err) w') @ es'"
        "summary_files es' = more" by blast
    have eq: "process_files pf (name # more) rs w =
        process_files pf more rs' (emit (ErrorProcessing name err) w')"
      by (simp add: p Threw)
    have "trace (world_of (process_files pf (name # more) rs w)) =
        trace w @ (es @ ErrorProcessing name err # es')"
      "summary_files (es @ ErrorProcessing name err # es') = name # more"
      unfolding eq by (simp_all add: ih(2) e(3) e(4) ih(3))
    then have "\<exists>es. trace (world_of (process_files pf (name # more) rs w)) = trace w @ es \<and>
        summary_files es = name # more" by blast
    with ih(1) show ?thesis unfolding eq by simp
  next
    case Pending
    with e(1) show ?thesis by simp
  qed
qed

lemma ensureDirExists_fields [simp]:
  "trace (ensureDirExists d w) = trace w"
  "apiKey (ensureDirExists d w) = apiKey w"
  "files (ensureDirExists d w) = files w"
  by (simp_all add: ensureDirExists_def mkdir_recursive_def)

text \<open>What a Job can throw.\<close>

lemma loop_throws:
  "outcome_of (review_loop pf f ib ctx rs w) = Threw e \<Longrightarrow>
   e = EditServiceError \<or> e = ReencodeError \<or> e = WriteFileError (outputPath f)"
proof (induction rs arbitrary: ctx w)
  case Nil
  then show ?case by (simp add: review_loop.simps)
next
  case (Cons r rs)
  then show ?case
    by (auto simp: review_loop.simps sendImageAndGetReturnedImage_def writeFile_def Let_def
        split: service_reply.splits option.splits if_splits choice.splits)
qed

lemma processOneFile_throws:
  "outcome_of (processOneFile pf f rs w) = Threw e \<Longrightarrow>
   e = ReadFileError (inputPath f) \<or> e = EditServiceError \<or> e = ReencodeError \<or>
   e = WriteFileError (outputPath f)"
  using loop_throws [of pf f _ _ rs w e]
  by (auto simp: processOneFile_def readFile_def split: option.splits)

lemma run_process_exit:
  "fst (run_process pf rs w) = (if outcome_of (main pf rs w) = Pending then None else Some 0)"
proof -
  obtain out rs' w' where m: "main pf rs w = (out, rs', w')" by (cases "main pf rs w")
  show ?thesis
    by (cases out)
      (simp_all add: run_process_def m catch_handler_def finally_handler_def exiftool_end_def
        exit_status_def)
qed

lemma run_process_world:
  "snd (run_process pf rs w) =
     (case outcome_of (main pf rs w) of
        Threw err \<Rightarrow> emit (ConsoleError err) (world_of (main pf rs w))
      | Returned \<Rightarrow> world_of (main pf rs w)
      | Pending \<Rightarrow> world_of (main pf rs w))"
proof -
  obtain out rs' w' where m: "main pf rs w = (out, rs', w')" by (cases "main pf rs w")
  show ?thesis
    by (cases out)
      (simp_all add: run_process_def m catch_handler_def finally_handler_def exiftool_end_def
        exit_status_def)
qed

lemma main_without_key:
  "apiKey w = None \<or> apiKey w = Some [] \<Longrightarrow> main pf rs w = (Threw MissingApiKey, rs, w)"
  by (auto simp: main_def)

text \<open>
  C1, as amended. When the credential is missing or empty, the process logs the error
  \<open>MissingApiKey\<close> and nothing else happens (no Job runs, no file changes), and it exits
  with status 0. On every run, the process exits with status 0 if it exits at all. It
  does exit with 0 when the inventory cannot be read, and when the inventory is read and
  the script holds an ending round for each file; every file of the inventory then has
  its summary line, in order, whether its Job returned or threw.
\<close>

theorem exit_status_always_zero:
  "(apiKey w = None \<or> apiKey w = Some [] \<longrightarrow>
      run_process pf rs w = (Some 0, emit (ConsoleError MissingApiKey) w)) \<and>
   (fst (run_process pf rs w) = None \<or> fst (run_process pf rs w) = Some 0) \<and>
   (apiKey w \<noteq> None \<and> apiKey w \<noteq> Some [] \<and>
    listJpegs (ensureDirExists OUTPUT_DIR (ensureDirExists INPUT_DIR w)) INPUT_DIR = Inl err \<longrightarrow>
      fst (run_process pf rs w) = Some 0) \<and>
   (apiKey w \<noteq> None \<and> apiKey w \<noteq> Some [] \<and>
    listJpegs (ensureDirExists OUTPUT_DIR (ensureDirExists INPUT_DIR w)) INPUT_DIR = Inr found \<and>
    length found \<le> length (filter (ending pf) rs) \<longrightarrow>
      fst (run_process pf rs w) = Some 0 \<and>
      (found \<noteq> [] \<longrightarrow> summary_files (new_events w (snd (run_process pf rs w))) = found))"
proof -
  have a: "apiKey w = None \<or> apiKey w = Some [] \<longrightarrow>
      run_process pf rs w = (Some 0, emit (ConsoleError MissingApiKey) w)"
  proof
    assume k: "apiKey w = None \<or> apiKey w = Some []"
    have "fst (run_process pf rs w) = Some 0"
      by (simp add: run_process_exit main_without_key [OF k])
    moreover have "snd (run_process pf rs w) = emit (ConsoleError MissingApiKey) w"
      by (simp add: run_process_world main_without_key [OF k])
    ultimately show "run_process pf rs w = (Some 0, emit (ConsoleError MissingApiKey) w)"
      by (metis prod.collapse)
  qed
  have b: "fst (run_process pf rs w) = None \<or> fst (run_process pf rs w) = Some 0"
    by (simp add: run_process_exit)
  let ?w1 = "ensureDirExists OUTPUT_DIR (ensureDirExists INPUT_DIR w)"
  have c: "apiKey w \<noteq> None \<and> apiKey w \<noteq> Some [] \<and> listJpegs ?w1 INPUT_DIR = Inl err \<longrightarrow>
      fst (run_process pf rs w) = Some 0"
    by (auto simp: run_process_exit main_def Let_def)
  have d: "apiKey w \<noteq> None \<and> apiKey w \<noteq> Some [] \<and> listJpegs ?w1 INPUT_DIR = Inr found \<and>
      length found \<le> length (filter (ending pf) rs) \<longrightarrow>
      fst (run_process pf rs w) = Some 0 \<and>
      (found \<noteq> [] \<longrightarrow> summary_files (new_events w (snd (run_process pf rs w))) = found)"
  proof
    assume h: "apiKey w \<noteq> None \<and> apiKey w \<noteq> Some [] \<and> listJpegs ?w1 INPUT_DIR = Inr found \<and>
      length found \<le> length (filter (ending pf) rs)"
    then have len: "length found \<le> length (filter (ending pf) rs)" by simp
    from process_files_returns [OF len, of ?w1] obtain es where p:
        "outcome_of (process_files pf found rs ?w1) = Returned"
        "trace (world_of (process_files pf found rs ?w1)) = trace ?w1 @ es"
        "summary_files es = found" by blast
    have m: "main pf rs w =
        (if found = [] then (Returned, rs, emit LogNoJpegs ?w1) else process_files pf found rs ?w1)"
    proof -
      from h have k: "\<not> (apiKey w = None \<or> apiKey w = Some [])"
        and l: "listJpegs ?w1 INPUT_DIR = Inr found" by simp_all
      have "main pf rs w =
          (let w1 = ensureDirExists OUTPUT_DIR (ensureDirExists INPUT_DIR w)
           in case listJpegs w1 INPUT_DIR of
                Inl e \<Rightarrow> (Threw e, rs, w1)
              | Inr found \<Rightarrow>
                  if length found = 0 then (Returned, rs, emit LogNoJpegs w1)
                  else process_files pf found rs w1)"
        unfolding main_def by (rule if_not_P [OF k])
      then show ?thesis by (simp add: Let_def l)
    qed
    have out: "outcome_of (main pf rs w) = Returned" using p(1) by (simp add: m)
    have e1: "fst (run_process pf rs w) = Some 0" by (simp add: run_process_exit out)
    have e2: "found \<noteq> [] \<longrightarrow> summary_files (new_events w (snd (run_process pf rs w))) = found"
    proof
      assume ne: "found \<noteq> []"
      then have "snd (run_process pf rs w) = world_of (process_files pf found rs ?w1)"
        using out by (simp add: run_process_world m)
      then show "summary_files (new_events w (snd (run_process pf rs w))) = found"
        by (simp add: new_events_def p(2) p(3))
    qed
    from e1 e2 show "fst (run_process pf rs w) = Some 0 \<and>
      (found \<noteq> [] \<longrightarrow> summary_files (new_events w (snd (run_process pf rs w))) = found)" by blast
  qed
  from a b c d show ?thesis by blast
qed

subsection \<open>Failures inside a Job\<close>

declare process_files.simps [simp del]

lemma loop_trace_extends:
  "\<exists>es. trace (world_of (review_loop pf f ib ctx rs w)) = trace w @ es"
  using loop_first_call [of pf f ib ctx rs w] by blast

text \<open>The world of an iteration once the file is written, and the menu after a failed copy.\<close>

lemma menu_world_copy_failed:
  assumes "copyAllExifFromTo pf (inputPath f) (outputPath f)
      ((emit (EditCall (currentPrompt ctx) (workingBuffer ctx) (workingMime ctx)) w)
         \<lparr>files := (files w)(outputPath f \<mapsto> j)\<rparr>) = Inl err"
  shows "menu_world pf f ctx j w =
      emit (MenuShown f) (emit (WarnExifFailed f err)
        ((emit (EditCall (currentPrompt ctx) (workingBuffer ctx) (workingMime ctx)) w)
           \<lparr>files := (files w)(outputPath f \<mapsto> j)\<rparr>))"
  by (simp add: menu_world_def copy_exif_logged_def assms)

lemma after_menu_events:
  assumes "fst (sendImageAndGetReturnedImage pf (reply r) (currentPrompt ctx) (workingBuffer ctx)
             (workingMime ctx) w) = Inr (Some returnedBuffer)"
    and "sharp_jpeg pf returnedBuffer = Some jpegBuffer"
    and "outputPath f \<notin> write_protected w"
  shows "\<exists>es. trace (world_of (review_loop pf f ib ctx (r # rs) w)) =
      trace (menu_world pf f ctx jpegBuffer w) @ es"
proof -
  note step = loop_at_menu [OF assms, of ib rs]
  show ?thesis
  proof (cases "menu r")
    case Accept
    with step show ?thesis by simp
  next
    case Comment
    obtain es where "trace (world_of (review_loop pf f ib
        (comment_context ctx returnedBuffer (promptComment (comment r))) rs
        (emit CommentAsked (menu_world pf f ctx jpegBuffer w)))) =
        trace (emit CommentAsked (menu_world pf f ctx jpegBuffer w)) @ es"
      using loop_trace_extends by blast
    with step Comment show ?thesis by simp
  next
    case Retry
    with step loop_trace_extends show ?thesis by simp
  next
    case Skip
    with step show ?thesis by simp
  qed
qed

text \<open>
  C7. In any iteration in which the output file has been written and the tag copy fails,
  the failure is logged and the menu is shown next; the failure is not what the loop
  throws, and no Job ever throws a metadata error. When the operator then accepts, the
  Job returns with the output file holding the JPEG bytes, and the batch driver logs the
  file as processed and goes on with the files that follow.
\<close>

theorem metadata_failure_is_ignored:
  assumes "fst (sendImageAndGetReturnedImage pf (reply r) (currentPrompt ctx) (workingBuffer ctx)
             (workingMime ctx) w) = Inr (Some returnedBuffer)"
    and "sharp_jpeg pf returnedBuffer = Some jpegBuffer"
    and "outputPath f \<notin> write_protected w"
    and "copyAllExifFromTo pf (inputPath f) (outputPath f)
           ((emit (EditCall (currentPrompt ctx) (workingBuffer ctx) (workingMime ctx)) w)
              \<lparr>files := (files w)(outputPath f \<mapsto> jpegBuffer)\<rparr>) = Inl err"
  shows "take 3 (new_events w (world_of (review_loop pf f ib ctx (r # rs) w))) =
           [EditCall (currentPrompt ctx) (workingBuffer ctx) (workingMime ctx),
            WarnExifFailed f err, MenuShown f] \<and>
         outcome_of (review_loop pf f ib ctx (r # rs) w) \<noteq> Threw err \<and>
         outcome_of (processOneFile pf f' rs' w') \<noteq> Threw MetadataCopyError \<and>
         (menu r = Accept \<longrightarrow>
            outcome_of (review_loop pf f ib ctx (r # rs) w) = Returned \<and>
            files (world_of (review_loop pf f ib ctx (r # rs) w)) (outputPath f) = Some jpegBuffer) \<and>
         (menu r = Accept \<and> files w (inputPath f) = Some ib \<and> ctx = initial_context f ib \<longrightarrow>
            process_files pf (f # next_files) (r # rs) w =
              process_files pf next_files rs
                (emit (LogProcessed f) (emit (MenuShown f) (emit (WarnExifFailed f err)
                  ((emit (EditCall PROMPT_TEXT ib (chooseMimeTypeFromFilename f)) w)
                     \<lparr>files := (files w)(outputPath f \<mapsto> jpegBuffer)\<rparr>)))))"
proof -
  let ?call = "EditCall (currentPrompt ctx) (workingBuffer ctx) (workingMime ctx)"
  let ?m = "emit (MenuShown f) (emit (WarnExifFailed f err)
        ((emit ?call w)\<lparr>files := (files w)(outputPath f \<mapsto> jpegBuffer)\<rparr>))"
  have m: "menu_world pf f ctx jpegBuffer w = ?m"
    using menu_world_copy_failed [OF assms(4)] .
  have err: "err = MetadataCopyError"
    using assms(4) by (auto simp: copyAllExifFromTo_def split: option.splits)
  obtain es where "trace (world_of (review_loop pf f ib ctx (r # rs) w)) = trace ?m @ es"
    using after_menu_events [OF assms(1,2,3)] unfolding m by blast
  then have a: "take 3 (new_events w (world_of (review_loop pf f ib ctx (r # rs) w))) =
      [?call, WarnExifFailed f err, MenuShown f]"
    by (simp add: new_events_def)
  have b: "outcome_of (review_loop pf f ib ctx (r # rs) w) \<noteq> Threw err"
    using loop_throws [of pf f ib ctx "r # rs" w err] err by auto
  have c: "outcome_of (processOneFile pf f' rs' w') \<noteq> Threw MetadataCopyError"
    using processOneFile_throws [of pf f' rs' w' MetadataCopyError] by auto
  have acc: "menu r = Accept \<longrightarrow> review_loop pf f ib ctx (r # rs) w = (Returned, rs, ?m)"
    using loop_at_menu [OF assms(1,2,3), of ib rs] by (simp add: m)
  then have d: "menu r = Accept \<longrightarrow>
      outcome_of (review_loop pf f ib ctx (r # rs) w) = Returned \<and>
      files (world_of (review_loop pf f ib ctx (r # rs) w)) (outputPath f) = Some jpegBuffer"
    by simp
  have e: "menu r = Accept \<and> files w (inputPath f) = Some ib \<and> ctx = initial_context f ib \<longrightarrow>
      process_files pf (f # next_files) (r # rs) w =
        process_files pf next_files rs
          (emit (LogProcessed f) (emit (MenuShown f) (emit (WarnExifFailed f err)
            ((emit (EditCall PROMPT_TEXT ib (chooseMimeTypeFromFilename f)) w)
               \<lparr>files := (files w)(outputPath f \<mapsto> jpegBuffer)\<rparr>))))"
    using acc by (auto simp: process_files.simps processOneFile_read initial_context_def)
  from a b c d e show ?thesis by blast
qed

lemma loop_write_fails:
  assumes "fst (sendImageAndGetReturnedImage pf (reply r) (currentPrompt ctx) (workingBuffer ctx)
             (workingMime ctx) w) = Inr (Some returnedBuffer)"
    and "sharp_jpeg pf returnedBuffer = Some jpegBuffer"
    and "outputPath f \<in> write_protected w"
  shows "review_loop pf f ib ctx (r # rs) w =
     (Threw (WriteFileError (outputPath f)), rs,
      emit (EditCall (currentPrompt ctx) (workingBuffer ctx) (workingMime ctx)) w)"
proof -
  obtain res w1 where s: "sendImageAndGetReturnedImage pf (reply r) (currentPrompt ctx)
      (workingBuffer ctx) (workingMime ctx) w = (res, w1)"
    by (cases "sendImageAndGetReturnedImage pf (reply r) (currentPrompt ctx)
      (workingBuffer ctx) (workingMime ctx) w")
  with assms(1) have res: "res = Inr (Some returnedBuffer)" by simp
  from s have w1: "w1 = emit (EditCall (currentPrompt ctx) (workingBuffer ctx) (workingMime ctx)) w"
    using send_world [of pf "reply r" "currentPrompt ctx" "workingBuffer ctx" "workingMime ctx" w]
    by simp
  have wr: "writeFile w1 (outputPath f) jpegBuffer = Inl (WriteFileError (outputPath f))"
    using assms(3) by (simp add: writeFile_def w1)
  show ?thesis by (simp add: review_loop.simps s res assms(2) wr w1 [symmetric])
qed

lemma loop_skip_delete_fails:
  assumes "fst (sendImageAndGetReturnedImage pf (reply r) (currentPrompt ctx) (workingBuffer ctx)
             (workingMime ctx) w) = Inr (Some returnedBuffer)"
    and "sharp_jpeg pf returnedBuffer = Some jpegBuffer"
    and "outputPath f \<notin> write_protected w"
    and "menu r = Skip"
    and "files w (inputPath f) = Some ib"
    and "inputPath f \<in> delete_protected w"
  shows "review_loop pf f ib ctx (r # rs) w =
           (Returned, rs, rm_swallowed (outputPath f) (menu_world pf f ctx jpegBuffer w)) \<and>
         rm_force (rm_swallowed (outputPath f) (menu_world pf f ctx jpegBuffer w)) (inputPath f) =
           Inl (RmError (inputPath f)) \<and>
         files (rm_swallowed (outputPath f) (menu_world pf f ctx jpegBuffer w)) (inputPath f) = Some ib"
proof -
  let ?m = "menu_world pf f ctx jpegBuffer w"
  let ?v = "rm_swallowed (outputPath f) ?m"
  have step: "review_loop pf f ib ctx (r # rs) w = (Returned, rs, rm_swallowed (inputPath f) ?v)"
    using loop_at_menu [OF assms(1,2,3), of ib rs] by (simp add: assms(4))
  have "files ?v (inputPath f) = files ?m (inputPath f)"
    using input_output_distinct [of f] by (auto simp: rm_swallowed_def rm_force_def)
  then have present: "files ?v (inputPath f) = Some ib"
    by (simp add: menu_world_input_file assms(5))
  have prot: "inputPath f \<in> delete_protected ?v" using assms(6) by simp
  from present prot have fails: "rm_force ?v (inputPath f) = Inl (RmError (inputPath f))"
    by (simp add: rm_force_def)
  then have "rm_swallowed (inputPath f) ?v = ?v" by (simp add: rm_swallowed_def)
  with step fails present show ?thesis by simp
qed

lemma loop_skip_output_stays:
  assumes "fst (sendImageAndGetReturnedImage pf (reply r) (currentPrompt ctx) (workingBuffer ctx)
             (workingMime ctx) w) = Inr (Some returnedBuffer)"
    and "sharp_jpeg pf returnedBuffer = Some jpegBuffer"
    and "outputPath f \<notin> write_protected w"
    and "menu r = Skip"
    and "outputPath f \<in> delete_protected w"
  shows "outcome_of (review_loop pf f ib ctx (r # rs) w) = Returned \<and>
         rounds_left (review_loop pf f ib ctx (r # rs) w) = rs \<and>
         files (world_of (review_loop pf f ib ctx (r # rs) w)) (outputPath f) =
           files (menu_world pf f ctx jpegBuffer w) (outputPath f) \<and>
         files (menu_world pf f ctx jpegBuffer w) (outputPath f) \<noteq> None"
proof -
  let ?m = "menu_world pf f ctx jpegBuffer w"
  have step: "review_loop pf f ib ctx (r # rs) w =
      (Returned, rs, rm_swallowed (inputPath f) (rm_swallowed (outputPath f) ?m))"
    using loop_at_menu [OF assms(1,2,3), of ib rs] by (simp add: assms(4))
  have "outputPath f \<in> delete_protected ?m" using assms(5) by simp
  with skip_world_files [of f ?m]
  have "files (rm_swallowed (inputPath f) (rm_swallowed (outputPath f) ?m)) (outputPath f) =
      files ?m (outputPath f)" by blast
  with step menu_world_output_file [of pf f ctx jpegBuffer w] show ?thesis by simp
qed

text \<open>
  C6, as amended. A failure to write the output file is thrown out of the review loop,
  and the batch driver logs it with the file name and goes on with the next file. A
  failure to delete is not: no Job ever throws a delete error, and a skip round in which
  the input file cannot be deleted returns normally with the input file still there, as
  does one in which the output file cannot be deleted, with the output file still there.
\<close>

theorem write_failure_propagates_delete_failure_does_not:
  "(fst (sendImageAndGetReturnedImage pf (reply r) (currentPrompt ctx) (workingBuffer ctx)
          (workingMime ctx) w) = Inr (Some returnedBuffer) \<and>
    sharp_jpeg pf returnedBuffer = Some jpegBuffer \<and>
    outputPath f \<in> write_protected w \<longrightarrow>
      review_loop pf f ib ctx (r # rs) w =
        (Threw (WriteFileError (outputPath f)), rs,
         emit (EditCall (currentPrompt ctx) (workingBuffer ctx) (workingMime ctx)) w) \<and>
      (files w (inputPath f) = Some ib \<and> ctx = initial_context f ib \<longrightarrow>
         process_files pf (f # next_files) (r # rs) w =
           process_files pf next_files rs
             (emit (ErrorProcessing f (WriteFileError (outputPath f)))
                (emit (EditCall PROMPT_TEXT ib (chooseMimeTypeFromFilename f)) w)))) \<and>
   outcome_of (processOneFile pf f' rs' w') \<noteq> Threw (RmError p) \<and>
   (fst (sendImageAndGetReturnedImage pf (reply r) (currentPrompt ctx) (workingBuffer ctx)
          (workingMime ctx) w) = Inr (Some returnedBuffer) \<and>
    sharp_jpeg pf returnedBuffer = Some jpegBuffer \<and>
    outputPath f \<notin> write_protected w \<and> menu r = Skip \<and>
    files w (inputPath f) = Some ib \<and> inputPath f \<in> delete_protected w \<longrightarrow>
      outcome_of (review_loop pf f ib ctx (r # rs) w) = Returned \<and>
      rounds_left (review_loop pf f ib ctx (r # rs) w) = rs \<and>
      files (world_of (review_loop pf f ib ctx (r # rs) w)) (inputPath f) = Some ib) \<and>
   (fst (sendImageAndGetReturnedImage pf (reply r) (currentPrompt ctx) (workingBuffer ctx)
          (workingMime ctx) w) = Inr (Some returnedBuffer) \<and>
    sharp_jpeg pf returnedBuffer = Some jpegBuffer \<and>
    outputPath f \<notin> write_protected w \<and> menu r = Skip \<and>
    outputPath f \<in> delete_protected w \<longrightarrow>
      outcome_of (review_loop pf f ib ctx (r # rs) w) = Returned \<and>
      rounds_left (review_loop pf f ib ctx (r # rs) w) = rs \<and>
      files (world_of (review_loop pf f ib ctx (r # rs) w)) (outputPath f) \<noteq> None)"
proof -
  have a: "fst (sendImageAndGetReturnedImage pf (reply r) (currentPrompt ctx) (workingBuffer ctx)
          (workingMime ctx) w) = Inr (Some returnedBuffer) \<and>
      sharp_jpeg pf returnedBuffer = Some jpegBuffer \<and>
      outputPath f \<in> write_protected w \<longrightarrow>
      review_loop pf f ib ctx (r # rs) w =
        (Threw (WriteFileError (outputPath f)), rs,
         emit (EditCall (currentPrompt ctx) (workingBuffer ctx) (workingMime ctx)) w) \<and>
      (files w (inputPath f) = Some ib \<and> ctx = initial_context f ib \<longrightarrow>
         process_files pf (f # next_files) (r # rs) w =
           process_files pf next_files rs
             (emit (ErrorProcessing f (WriteFileError (outputPath f)))
                (emit (EditCall PROMPT_TEXT ib (chooseMimeTypeFromFilename f)) w)))"
  proof
    assume h: "fst (sendImageAndGetReturnedImage pf (reply r) (currentPrompt ctx) (workingBuffer ctx)
          (workingMime ctx) w) = Inr (Some returnedBuffer) \<and>
      sharp_jpeg pf returnedBuffer = Some jpegBuffer \<and>
      outputPath f \<in> write_protected w"
    then have step: "review_loop pf f ib ctx (r # rs) w =
        (Threw (WriteFileError (outputPath f)), rs,
         emit (EditCall (currentPrompt ctx) (workingBuffer ctx) (workingMime ctx)) w)"
      using loop_write_fails by blast
    then have "files w (inputPath f) = Some ib \<and> ctx = initial_context f ib \<longrightarrow>
         process_files pf (f # next_files) (r # rs) w =
           process_files pf next_files rs
             (emit (ErrorProcessing f (WriteFileError (outputPath f)))
                (emit (EditCall PROMPT_TEXT ib (chooseMimeTypeFromFilename f)) w))"
      by (auto simp: process_files.simps processOneFile_read initial_context_def)
    with step show "review_loop pf f ib ctx (r # rs) w =
        (Threw (WriteFileError (outputPath f)), rs,
         emit (EditCall (currentPrompt ctx) (workingBuffer ctx) (workingMime ctx)) w) \<and>
      (files w (inputPath f) = Some ib \<and> ctx = initial_context f ib \<longrightarrow>
         process_files pf (f # next_files) (r # rs) w =
           process_files pf next_files rs
             (emit (ErrorProcessing f (WriteFileError (outputPath f)))
                (emit (EditCall PROMPT_TEXT ib (chooseMimeTypeFromFilename f)) w)))" by blast
  qed
  have b: "outcome_of (processOneFile pf f' rs' w') \<noteq> Threw (RmError p)"
    using processOneFile_throws [of pf f' rs' w' "RmError p"] by auto
  have c: "fst (sendImageAndGetReturnedImage pf (reply r) (currentPrompt ctx) (workingBuffer ctx)
          (workingMime ctx) w) = Inr (Some returnedBuffer) \<and>
      sharp_jpeg pf returnedBuffer = Some jpegBuffer \<and>
      outputPath f \<notin> write_protected w \<and> menu r = Skip \<and>
      files w (inputPath f) = Some ib \<and> inputPath f \<in> delete_protected w \<longrightarrow>
      outcome_of (review_loop pf f ib ctx (r # rs) w) = Returned \<and>
      rounds_left (review_loop pf f ib ctx (r # rs) w) = rs \<and>
      files (world_of (review_loop pf f ib ctx (r # rs) w)) (inputPath f) = Some ib"
  proof
    assume h: "fst (sendImageAndGetReturnedImage pf (reply r) (currentPrompt ctx) (workingBuffer ctx)
          (workingMime ctx) w) = Inr (Some returnedBuffer) \<and>
      sharp_jpeg pf returnedBuffer = Some jpegBuffer \<and>
      outputPath f \<notin> write_protected w \<and> menu r = Skip \<and>
      files w (inputPath f) = Some ib \<and> inputPath f \<in> delete_protected w"
    then show "outcome_of (review_loop pf f ib ctx (r # rs) w) = Returned \<and>
      rounds_left (review_loop pf f ib ctx (r # rs) w) = rs \<and>
      files (world_of (review_loop pf f ib ctx (r # rs) w)) (inputPath f) = Some ib"
      using loop_skip_delete_fails [of pf r ctx w returnedBuffer jpegBuffer f ib rs] by simp
  qed
  have d: "(fst (sendImageAndGetReturnedImage pf (reply r) (currentPrompt ctx) (workingBuffer ctx)
            (workingMime ctx) w) = Inr (Some returnedBuffer) \<and>
      sharp_jpeg pf returnedBuffer = Some jpegBuffer \<and>
      outputPath f \<notin> write_protected w \<and> menu r = Skip \<and>
      outputPath f \<in> delete_protected w \<longrightarrow>
        outcome_of (review_loop pf f ib ctx (r # rs) w) = Returned \<and>
        rounds_left (review_loop pf f ib ctx (r # rs) w) = rs \<and>
        files (world_of (review_loop pf f ib ctx (r # rs) w)) (outputPath f) \<noteq> None)"
    using loop_skip_output_stays [of pf r ctx w returnedBuffer jpegBuffer f ib rs] by simp
  from a b c d show ?thesis by blast
qed


subsection \<open>The example world at work, continued\<close>

lemma example_inventory:
  "listJpegs (ensureDirExists OUTPUT_DIR (ensureDirExists INPUT_DIR example_world)) INPUT_DIR =
     Inr [js ''a.jpg'', js ''b.jpeg'']"
  by (simp add: listJpegs_def readdir_def ensureDirExists_def mkdir_recursive_def example_world_def
      isJpegFilename_def extname_def last_segment_def toLowerCase_def Let_def
      INPUT_DIR_def OUTPUT_DIR_def js_def)

text \<open>
  C1 as stated fails: with no credential in the environment the exit status is 0, not a
  non-zero one.
\<close>

theorem missing_key_exits_zero:
  "apiKey (example_world\<lparr>apiKey := None\<rparr>) = None \<and>
   fst (run_process stub_platform [] (example_world\<lparr>apiKey := None\<rparr>)) = Some 0"
  by (simp add: run_process_exit main_without_key)

lemma stub_ending: "ending stub_platform (round_of image_reply Accept t)"
  by (simp add: ending_def continuing_def)

theorem exit_status_always_zero_witness:
  "run_process stub_platform [] (example_world\<lparr>apiKey := None\<rparr>) =
     (Some 0, emit (ConsoleError MissingApiKey) (example_world\<lparr>apiKey := None\<rparr>)) \<and>
   fst (run_process stub_platform
          [round_of image_reply Accept None, round_of image_reply Accept None] example_world) = Some 0 \<and>
   summary_files (new_events example_world (snd (run_process stub_platform
          [round_of image_reply Accept None, round_of image_reply Accept None] example_world))) =
     [js ''a.jpg'', js ''b.jpeg''] \<and>
   files example_world (inputPath (js ''b.jpeg'')) = None"
proof -
  have k0: "apiKey (example_world\<lparr>apiKey := None\<rparr>) = None \<or>
      apiKey (example_world\<lparr>apiKey := None\<rparr>) = Some []" by simp
  have k1: "apiKey example_world \<noteq> None \<and> apiKey example_world \<noteq> Some []"
    by (simp add: example_world_def js_def)
  have len: "length [js ''a.jpg'', js ''b.jpeg''] \<le> length (filter (ending stub_platform)
      [round_of image_reply Accept None, round_of image_reply Accept None])"
    by (simp add: stub_ending)
  have missing: "files example_world (inputPath (js ''b.jpeg'')) = None"
    by (simp add: example_world_def inputPath_def path_join_def photo_def js_def)
  have ne: "[js ''a.jpg'', js ''b.jpeg''] \<noteq> []" by simp
  from exit_status_always_zero [where w = "example_world\<lparr>apiKey := None\<rparr>"
      and pf = stub_platform and rs = "[]"] k0
  have a: "run_process stub_platform [] (example_world\<lparr>apiKey := None\<rparr>) =
     (Some 0, emit (ConsoleError MissingApiKey) (example_world\<lparr>apiKey := None\<rparr>))" by blast
  from exit_status_always_zero [where w = example_world and pf = stub_platform
      and rs = "[round_of image_reply Accept None, round_of image_reply Accept None]"
      and found = "[js ''a.jpg'', js ''b.jpeg'']"] k1 example_inventory len ne
  have b: "fst (run_process stub_platform
          [round_of image_reply Accept None, round_of image_reply Accept None] example_world) = Some 0 \<and>
   summary_files (new_events example_world (snd (run_process stub_platform
          [round_of image_reply Accept None, round_of image_reply Accept None] example_world))) =
     [js ''a.jpg'', js ''b.jpeg'']" by blast
  from a b missing show ?thesis by blast
qed

text \<open>
  C6 as stated fails: with an input file that cannot be deleted, the deletion of the skip
  branch fails and the Job returns normally, the input file still in place.
\<close>

theorem delete_failure_is_swallowed:
  "rm_force (rm_swallowed (outputPath photo)
      (menu_world stub_platform photo (initial_context photo photo_bytes) (JPEG_SOI @ [0xE0])
         (example_world\<lparr>delete_protected := {inputPath photo}\<rparr>))) (inputPath photo) =
     Inl (RmError (inputPath photo)) \<and>
   processOneFile stub_platform photo [round_of image_reply Skip None]
       (example_world\<lparr>delete_protected := {inputPath photo}\<rparr>) =
     (Returned, [], rm_swallowed (outputPath photo)
      (menu_world stub_platform photo (initial_context photo photo_bytes) (JPEG_SOI @ [0xE0])
         (example_world\<lparr>delete_protected := {inputPath photo}\<rparr>))) \<and>
   files (world_of (processOneFile stub_platform photo [round_of image_reply Skip None]
       (example_world\<lparr>delete_protected := {inputPath photo}\<rparr>))) (inputPath photo) =
     Some photo_bytes"
proof -
  let ?w = "example_world\<lparr>delete_protected := {inputPath photo}\<rparr>"
  have h3: "outputPath photo \<notin> write_protected ?w" by (simp add: example_world_fields)
  have h4: "menu (round_of image_reply Skip None) = Skip" by simp
  have h5: "files ?w (inputPath photo) = Some photo_bytes" by (simp add: example_world_fields)
  have h6: "inputPath photo \<in> delete_protected ?w" by simp
  have p: "processOneFile stub_platform photo [round_of image_reply Skip None] ?w =
      review_loop stub_platform photo photo_bytes (initial_context photo photo_bytes)
        [round_of image_reply Skip None] ?w"
    using h5 by (rule processOneFile_read)
  show ?thesis
    unfolding p
    using loop_skip_delete_fails [where ctx = "initial_context photo photo_bytes" and rs = "[]",
        OF stub_image stub_sharp h3 h4 h5 h6]
    by simp
qed

lemma stub_menu_world_output:
  "files w (inputPath f) \<noteq> None \<Longrightarrow>
   files (menu_world stub_platform f ctx j w) (outputPath f) = Some j"
  by (auto simp: menu_world_def copy_exif_logged_def copyAllExifFromTo_def stub_platform_def
      input_output_distinct split: option.splits)

text \<open>
  C5 as stated fails: in a Job that ends in skip with an output file and an input file
  that cannot be deleted, the loop returns and both files are still there.
\<close>

theorem skip_leaves_undeletable_files:
  "menu (round_of image_reply Skip None) = Skip \<and>
   outcome_of (processOneFile stub_platform photo [round_of image_reply Skip None]
       (example_world\<lparr>delete_protected := {outputPath photo, inputPath photo}\<rparr>)) = Returned \<and>
   files (world_of (processOneFile stub_platform photo [round_of image_reply Skip None]
       (example_world\<lparr>delete_protected := {outputPath photo, inputPath photo}\<rparr>)))
     (outputPath photo) = Some (JPEG_SOI @ [0xE0]) \<and>
   files (world_of (processOneFile stub_platform photo [round_of image_reply Skip None]
       (example_world\<lparr>delete_protected := {outputPath photo, inputPath photo}\<rparr>)))
     (inputPath photo) = Some photo_bytes"
proof -
  let ?w = "example_world\<lparr>delete_protected := {outputPath photo, inputPath photo}\<rparr>"
  let ?c = "initial_context photo photo_bytes"
  have h3: "outputPath photo \<notin> write_protected ?w" by (simp add: example_world_fields)
  have h4: "menu (round_of image_reply Skip None) = Skip" by simp
  have h5: "files ?w (inputPath photo) = Some photo_bytes" by (simp add: example_world_fields)
  have h6: "inputPath photo \<in> delete_protected ?w" and h7: "outputPath photo \<in> delete_protected ?w"
    by simp_all
  have p: "processOneFile stub_platform photo [round_of image_reply Skip None] ?w =
      review_loop stub_platform photo photo_bytes ?c [round_of image_reply Skip None] ?w"
    using h5 by (rule processOneFile_read)
  have inp: "files (world_of (review_loop stub_platform photo photo_bytes ?c
      [round_of image_reply Skip None] ?w)) (inputPath photo) = Some photo_bytes"
    using loop_keeps_protected_input [OF h6, of stub_platform photo_bytes ?c
        "[round_of image_reply Skip None]"] h5 by simp
  have m: "files (menu_world stub_platform photo ?c (JPEG_SOI @ [0xE0]) ?w) (outputPath photo) =
      Some (JPEG_SOI @ [0xE0])"
    using h5 by (simp add: stub_menu_world_output)
  from loop_skip_output_stays [where ctx = ?c and rs = "[]" and ib = photo_bytes,
      OF stub_image stub_sharp h3 h4 h7] m
  have out: "outcome_of (review_loop stub_platform photo photo_bytes ?c
        [round_of image_reply Skip None] ?w) = Returned \<and>
      files (world_of (review_loop stub_platform photo photo_bytes ?c
        [round_of image_reply Skip None] ?w)) (outputPath photo) = Some (JPEG_SOI @ [0xE0])"
    by simp
  from h4 out inp show ?thesis unfolding p by blast
qed

theorem write_failure_propagates_delete_failure_does_not_witness:
  "review_loop stub_platform photo photo_bytes (initial_context photo photo_bytes)
       [round_of image_reply Accept None] (example_world\<lparr>write_protected := {outputPath photo}\<rparr>) =
     (Threw (WriteFileError (outputPath photo)), [],
      emit (EditCall PROMPT_TEXT photo_bytes (js ''image/jpeg''))
        (example_world\<lparr>write_protected := {outputPath photo}\<rparr>)) \<and>
   outcome_of (review_loop stub_platform photo photo_bytes (initial_context photo photo_bytes)
       [round_of image_reply Skip None] (example_world\<lparr>delete_protected := {inputPath photo}\<rparr>)) =
     Returned \<and>
   files (world_of (review_loop stub_platform photo photo_bytes (initial_context photo photo_bytes)
       [round_of image_reply Skip None] (example_world\<lparr>delete_protected := {inputPath photo}\<rparr>)))
     (inputPath photo) = Some photo_bytes \<and>
   outcome_of (review_loop stub_platform photo photo_bytes (initial_context photo photo_bytes)
       [round_of image_reply Skip None] (example_world\<lparr>delete_protected := {outputPath photo}\<rparr>)) =
     Returned \<and>
   files (world_of (review_loop stub_platform photo photo_bytes (initial_context photo photo_bytes)
       [round_of image_reply Skip None] (example_world\<lparr>delete_protected := {outputPath photo}\<rparr>)))
     (outputPath photo) \<noteq> None"
proof -
  let ?w1 = "example_world\<lparr>write_protected := {outputPath photo}\<rparr>"
  let ?w2 = "example_world\<lparr>delete_protected := {inputPath photo}\<rparr>"
  let ?w3 = "example_world\<lparr>delete_protected := {outputPath photo}\<rparr>"
  let ?c = "initial_context photo photo_bytes"
  have a: "fst (sendImageAndGetReturnedImage stub_platform (reply (round_of image_reply Accept None))
        (currentPrompt ?c) (workingBuffer ?c) (workingMime ?c) ?w1) = Inr (Some PNG_SIGNATURE) \<and>
      sharp_jpeg stub_platform PNG_SIGNATURE = Some (JPEG_SOI @ [0xE0]) \<and>
      outputPath photo \<in> write_protected ?w1"
    using stub_image stub_sharp by simp
  have b: "fst (sendImageAndGetReturnedImage stub_platform (reply (round_of image_reply Skip None))
        (currentPrompt ?c) (workingBuffer ?c) (workingMime ?c) ?w2) = Inr (Some PNG_SIGNATURE) \<and>
      sharp_jpeg stub_platform PNG_SIGNATURE = Some (JPEG_SOI @ [0xE0]) \<and>
      outputPath photo \<notin> write_protected ?w2 \<and> menu (round_of image_reply Skip None) = Skip \<and>
      files ?w2 (inputPath photo) = Some photo_bytes \<and> inputPath photo \<in> delete_protected ?w2"
    using stub_image stub_sharp by (simp add: example_world_fields)
  have c: "fst (sendImageAndGetReturnedImage stub_platform (reply (round_of image_reply Skip None))
        (currentPrompt ?c) (workingBuffer ?c) (workingMime ?c) ?w3) = Inr (Some PNG_SIGNATURE) \<and>
      sharp_jpeg stub_platform PNG_SIGNATURE = Some (JPEG_SOI @ [0xE0]) \<and>
      outputPath photo \<notin> write_protected ?w3 \<and> menu (round_of image_reply Skip None) = Skip \<and>
      outputPath photo \<in> delete_protected ?w3"
    using stub_image stub_sharp by (simp add: example_world_fields)
  from write_failure_propagates_delete_failure_does_not [where pf = stub_platform
      and r = "round_of image_reply Accept None" and ctx = ?c and w = ?w1
      and returnedBuffer = PNG_SIGNATURE and jpegBuffer = "JPEG_SOI @ [0xE0]" and f = photo
      and ib = photo_bytes and rs = "[]"] a
  have x: "review_loop stub_platform photo photo_bytes ?c [round_of image_reply Accept None] ?w1 =
     (Threw (WriteFileError (outputPath photo)), [],
      emit (EditCall (currentPrompt ?c) (workingBuffer ?c) (workingMime ?c)) ?w1)" by blast
  from write_failure_propagates_delete_failure_does_not [where pf = stub_platform
      and r = "round_of image_reply Skip None" and ctx = ?c and w = ?w2
      and returnedBuffer = PNG_SIGNATURE and jpegBuffer = "JPEG_SOI @ [0xE0]" and f = photo
      and ib = photo_bytes and rs = "[]"] b
  have y: "outcome_of (review_loop stub_platform photo photo_bytes ?c
       [round_of image_reply Skip None] ?w2) = Returned \<and>
   files (world_of (review_loop stub_platform photo photo_bytes ?c
       [round_of image_reply Skip None] ?w2)) (inputPath photo) = Some photo_bytes" by blast
  from write_failure_propagates_delete_failure_does_not [where pf = stub_platform
      and r = "round_of image_reply Skip None" and ctx = ?c and w = ?w3
      and returnedBuffer = PNG_SIGNATURE and jpegBuffer = "JPEG_SOI @ [0xE0]" and f = photo
      and ib = photo_bytes and rs = "[]"] c
  have z: "outcome_of (review_loop stub_platform photo photo_bytes ?c
       [round_of image_reply Skip None] ?w3) = Returned \<and>
   files (world_of (review_loop stub_platform photo photo_bytes ?c
       [round_of image_reply Skip None] ?w3)) (outputPath photo) \<noteq> None" by blast
  from x y z show ?thesis by (simp add: initial_context_def photo_mime)
qed

text \<open>The stand-in tools with a tag copy that always fails.\<close>

lemma failing_copy:
  "copyAllExifFromTo (stub_platform\<lparr>exiftool_copy := \<lambda>s d. None\<rparr>) src dst w = Inl MetadataCopyError"
  by (simp add: copyAllExifFromTo_def split: option.splits)

theorem metadata_failure_is_ignored_witness:
  "files (world_of (review_loop (stub_platform\<lparr>exiftool_copy := \<lambda>s d. None\<rparr>) photo photo_bytes
       (initial_context photo photo_bytes) [round_of image_reply Accept None] example_world))
     (outputPath photo) = Some (JPEG_SOI @ [0xE0]) \<and>
   take 3 (new_events example_world
     (world_of (review_loop (stub_platform\<lparr>exiftool_copy := \<lambda>s d. None\<rparr>) photo photo_bytes
       (initial_context photo photo_bytes) [round_of image_reply Accept None] example_world))) =
     [EditCall PROMPT_TEXT photo_bytes (js ''image/jpeg''),
      WarnExifFailed photo MetadataCopyError, MenuShown photo] \<and>
   summary_files (new_events example_world
     (world_of (process_files (stub_platform\<lparr>exiftool_copy := \<lambda>s d. None\<rparr>)
        [photo, js ''b.jpeg''] [round_of image_reply Accept None] example_world))) =
     [photo, js ''b.jpeg'']"
proof -
  let ?pf = "stub_platform\<lparr>exiftool_copy := \<lambda>s d. None\<rparr>"
  let ?c = "initial_context photo photo_bytes"
  have h1: "fst (sendImageAndGetReturnedImage ?pf (reply (round_of image_reply Accept None))
        (currentPrompt ?c) (workingBuffer ?c) (workingMime ?c) example_world) =
      Inr (Some PNG_SIGNATURE)"
    by (simp add: sendImageAndGetReturnedImage_def Let_def image_reply_def
      response_parts_def stub_platform_def)
  have h2: "sharp_jpeg ?pf PNG_SIGNATURE = Some (JPEG_SOI @ [0xE0])"
    by (simp add: stub_platform_def PNG_SIGNATURE_def)
  have h3: "outputPath photo \<notin> write_protected example_world"
    by (simp add: example_world_fields)
  note t = metadata_failure_is_ignored [where ib = photo_bytes and rs = "[]"
      and next_files = "[js ''b.jpeg'']" and f' = photo and rs' = "[]" and w' = example_world,
      OF h1 h2 h3 failing_copy]
  have missing: "files example_world (inputPath (js ''b.jpeg'')) = None"
    by (simp add: example_world_def inputPath_def path_join_def photo_def js_def)
  have out_b: "inputPath (js ''b.jpeg'') \<noteq> outputPath photo"
    by (simp add: inputPath_def outputPath_def path_join_def INPUT_DIR_def OUTPUT_DIR_def js_def)
  have next_job: "process_files ?pf [js ''b.jpeg''] [] w =
      (Returned, [], emit (ErrorProcessing (js ''b.jpeg'') (ReadFileError (inputPath (js ''b.jpeg'')))) w)"
    if "files w (inputPath (js ''b.jpeg'')) = None" for w
    using that by (simp add: process_files.simps processOneFile_def readFile_def)
  show ?thesis
    using t by (simp add: example_world_fields initial_context_def photo_mime next_job
        missing out_b new_events_def)
qed

end
